theory Spec2Isabelle
  imports Main "HOL-Library.AList" "HOL-Library.Char_ord" "HOL-Library.List_Lexorder"
    "HOL-Library.Multiset"
begin

section \<open>Values of the analysed documents\<close>

text \<open>
  The analysis engine of \<^verbatim>\<open>src/analysis.ts\<close> walks values typed \<^verbatim>\<open>any\<close>: the results of
  parsing configuration files, and \<^verbatim>\<open>undefined\<close> for an absent value. An object is the
  list of its own properties in the order \<^verbatim>\<open>Object.entries\<close> enumerates them; a string is
  a list of characters. A number is an integer of magnitude below \<open>10\<^sup>2\<^sup>1\<close>, where
  \<^verbatim>\<open>String\<close> gives the decimal digits: the engine uses a number only through
  \<^verbatim>\<open>String\<close> and its truth value. Larger numbers, fractions, \<^verbatim>\<open>NaN\<close> and the
  infinities, which the JSON5 parser of the files can also return, have another string form and
  are not values of this model.
\<close>

datatype json =
    JNull
  | JUndefined
  | JBool bool
  | JNum int
  | JStr string
  | JArr "json list"
  | JObj "(string \<times> json) list"

text \<open>The only exception the engine's own code can raise.\<close>

datatype error = TypeError

text \<open>\<^verbatim>\<open>typeof\<close> and \<^verbatim>\<open>Array.isArray\<close>.\<close>

fun typeof :: "json \<Rightarrow> string" where
  "typeof JNull = ''object''"
| "typeof JUndefined = ''undefined''"
| "typeof (JBool b) = ''boolean''"
| "typeof (JNum n) = ''number''"
| "typeof (JStr s) = ''string''"
| "typeof (JArr xs) = ''object''"
| "typeof (JObj kvs) = ''object''"

fun isArray :: "json \<Rightarrow> bool" where
  "isArray (JArr xs) = True"
| "isArray v = False"

text \<open>Truthiness, as tested by \<^verbatim>\<open>if (!configData) continue\<close>.\<close>

fun truthy :: "json \<Rightarrow> bool" where
  "truthy JNull = False"
| "truthy JUndefined = False"
| "truthy (JBool b) = b"
| "truthy (JNum n) = (n \<noteq> 0)"
| "truthy (JStr s) = (s \<noteq> [])"
| "truthy (JArr xs) = True"
| "truthy (JObj kvs) = True"

section \<open>Insertion-ordered maps and sets\<close>

text \<open>
  A \<^verbatim>\<open>Map\<close> is an association list in insertion order: \<^verbatim>\<open>set\<close> on a present key
  replaces the value in place and on a new key appends (\<^const>\<open>AList.update\<close>), a
  mutation of the value stored under a key is \<^const>\<open>AList.map_entry\<close>, \<^verbatim>\<open>get\<close> is
  \<^const>\<open>map_of\<close>. A \<^verbatim>\<open>Set\<close> is a duplicate-free list in insertion order.
\<close>

definition map_has :: "'k \<Rightarrow> ('k \<times> 'v) list \<Rightarrow> bool" where
  "map_has k m = (map_of m k \<noteq> None)"

definition set_add :: "'a \<Rightarrow> 'a list \<Rightarrow> 'a list" where
  "set_add v s = (if v \<in> set s then s else s @ [v])"

section \<open>The canonical string form\<close>

definition digit_char :: "nat \<Rightarrow> char" where
  "digit_char d = ''0123456789'' ! d"

fun nat_digits :: "nat \<Rightarrow> string" where
  "nat_digits n = (if n < 10 then [digit_char n] else nat_digits (n div 10) @ [digit_char (n mod 10)])"

declare nat_digits.simps [simp del]

definition Number_toString :: "int \<Rightarrow> string" where
  "Number_toString i = (if i < 0 then CHR ''-'' # nat_digits (nat (- i)) else nat_digits (nat i))"

text \<open>
  \<^verbatim>\<open>String(v)\<close>. An array is joined with commas, \<^verbatim>\<open>null\<close> and \<^verbatim>\<open>undefined\<close> elements
  giving the empty string. A plain object gives \<^verbatim>\<open>[object Object]\<close> through
  \<^verbatim>\<open>Object.prototype.toString\<close>, unless it has an own property \<^verbatim>\<open>toString\<close>: a parsed
  document's property is never callable, \<^verbatim>\<open>valueOf\<close> then returns no primitive, and the
  conversion throws a \<^verbatim>\<open>TypeError\<close>.
\<close>

fun js_String :: "json \<Rightarrow> error + string"
and Array_join :: "json list \<Rightarrow> error + string"
where
  "js_String JNull = Inr ''null''"
| "js_String JUndefined = Inr ''undefined''"
| "js_String (JBool b) = Inr (if b then ''true'' else ''false'')"
| "js_String (JNum n) = Inr (Number_toString n)"
| "js_String (JStr s) = Inr s"
| "js_String (JArr xs) = Array_join xs"
| "js_String (JObj kvs) =
     (if map_has ''toString'' kvs then Inl TypeError else Inr ''[object Object]'')"
| "Array_join [] = Inr []"
| "Array_join (x # rest) =
     (case (if x = JNull \<or> x = JUndefined then Inr [] else js_String x) of
        Inl e \<Rightarrow> Inl e
      | Inr s \<Rightarrow>
          (if rest = [] then Inr s
           else (case Array_join rest of
                   Inl e \<Rightarrow> Inl e
                 | Inr t \<Rightarrow> Inr (s @ '','' @ t))))"

section \<open>The field extractor\<close>

datatype FieldType = Primitive | Object | Array

record FieldAnalysis =
  modValues :: "(string \<times> string list) list"
  distinctValues :: "string list"
  fieldType :: FieldType

type_synonym FieldsMap = "(string \<times> FieldAnalysis) list"

text \<open>
  The path of an object's key: \<^verbatim>\<open>fieldPath ? `${fieldPath}.${key}` : key\<close>, replaced
  under the path \<^verbatim>\<open>settings\<close> of the config type \<^verbatim>\<open>default-config\<close>.
\<close>

definition join_path :: "string \<Rightarrow> string \<Rightarrow> string" where
  "join_path fieldPath key = (if fieldPath \<noteq> [] then fieldPath @ ''.'' @ key else key)"

definition child_path :: "string \<Rightarrow> string \<Rightarrow> string \<Rightarrow> string" where
  "child_path configTypeName fieldPath key =
     (let newPath = join_path fieldPath key
      in if fieldPath = ''settings'' \<and> configTypeName = ''default-config''
         then fieldPath @ ''.{settingName}'' else newPath)"

text \<open>\<^verbatim>\<open>fieldPath || '[root]'\<close>.\<close>

definition path_key :: "string \<Rightarrow> string" where
  "path_key fieldPath = (if fieldPath \<noteq> [] then fieldPath else ''[root]'')"

definition hasObjects :: "json list \<Rightarrow> bool" where
  "hasObjects obj = list_ex (\<lambda>item. item \<noteq> JNull \<and> typeof item = ''object'') obj"

definition hasPrimitives :: "json list \<Rightarrow> bool" where
  "hasPrimitives obj = list_ex (\<lambda>item. item = JNull \<or> typeof item \<noteq> ''object'') obj"

text \<open>
  The loop over one array element's fields (lines 131 to 143): the first kind seen for a
  key is kept, the values are added to the key's set.
\<close>

fun merge_item_fields :: "FieldsMap \<Rightarrow> FieldsMap \<Rightarrow> FieldsMap" where
  "merge_item_fields [] mergedFields = mergedFields"
| "merge_item_fields ((key, analysis) # rest) mergedFields =
     (let mergedFields1 =
        (if \<not> map_has key mergedFields
         then AList.update key
                \<lparr>modValues = [], distinctValues = [], fieldType = fieldType analysis\<rparr> mergedFields
         else mergedFields)
      in merge_item_fields rest
           (AList.map_entry key
              (\<lambda>merged. merged\<lparr>distinctValues :=
                   fold set_add (distinctValues analysis) (distinctValues merged)\<rparr>)
              mergedFields1))"

text \<open>The loop that stores the merged fields under the array's path (lines 147 to 150).\<close>

fun add_prefixed :: "FieldsMap \<Rightarrow> string \<Rightarrow> FieldsMap \<Rightarrow> FieldsMap" where
  "add_prefixed [] fieldPath fieldsMap = fieldsMap"
| "add_prefixed ((key, analysis) # rest) fieldPath fieldsMap =
     add_prefixed rest fieldPath (AList.update (join_path fieldPath key) analysis fieldsMap)"

text \<open>
  The loop of the scalar branch (lines 161 to 165). It runs over every element of the
  array and turns each one that is not \<^verbatim>\<open>null\<close> or \<^verbatim>\<open>undefined\<close> into a string.
\<close>

fun array_values :: "json list \<Rightarrow> string list \<Rightarrow> error + string list" where
  "array_values [] dv = Inr dv"
| "array_values (item # rest) dv =
     (if item \<noteq> JNull \<and> item \<noteq> JUndefined
      then (case js_String item of
              Inl e \<Rightarrow> Inl e
            | Inr s \<Rightarrow> array_values rest (set_add s dv))
      else array_values rest dv)"

text \<open>The loop that copies a nested result into the object's result (lines 192 to 194).\<close>

fun set_all :: "FieldsMap \<Rightarrow> FieldsMap \<Rightarrow> FieldsMap" where
  "set_all [] fieldsMap = fieldsMap"
| "set_all ((nestedKey, analysis) # rest) fieldsMap =
     set_all rest (AList.update nestedKey analysis fieldsMap)"

text \<open>
  \<^verbatim>\<open>extractFieldsFromJson(obj, configTypeName, fieldPath)\<close>. \<open>extract_items\<close> is the loop
  over an array's elements (line 128), threading \<^verbatim>\<open>mergedFields\<close>; \<open>extract_entries\<close>
  is the loop over an object's entries (line 175), threading \<^verbatim>\<open>fieldsMap\<close>.
\<close>

fun extractFieldsFromJson :: "json \<Rightarrow> string \<Rightarrow> string \<Rightarrow> error + FieldsMap"
and extract_items :: "json list \<Rightarrow> string \<Rightarrow> FieldsMap \<Rightarrow> error + FieldsMap"
and extract_entries ::
  "(string \<times> json) list \<Rightarrow> string \<Rightarrow> string \<Rightarrow> FieldsMap \<Rightarrow> error + FieldsMap"
where
  "extractFieldsFromJson JNull configTypeName fieldPath = Inr []"
| "extractFieldsFromJson JUndefined configTypeName fieldPath = Inr []"
| "extractFieldsFromJson (JBool b) configTypeName fieldPath =
     (case js_String (JBool b) of
        Inl e \<Rightarrow> Inl e
      | Inr valueStr \<Rightarrow>
          Inr [(path_key fieldPath,
                \<lparr>modValues = [], distinctValues = [valueStr], fieldType = Primitive\<rparr>)])"
| "extractFieldsFromJson (JNum n) configTypeName fieldPath =
     (case js_String (JNum n) of
        Inl e \<Rightarrow> Inl e
      | Inr valueStr \<Rightarrow>
          Inr [(path_key fieldPath,
                \<lparr>modValues = [], distinctValues = [valueStr], fieldType = Primitive\<rparr>)])"
| "extractFieldsFromJson (JStr s) configTypeName fieldPath =
     (case js_String (JStr s) of
        Inl e \<Rightarrow> Inl e
      | Inr valueStr \<Rightarrow>
          Inr [(path_key fieldPath,
                \<lparr>modValues = [], distinctValues = [valueStr], fieldType = Primitive\<rparr>)])"
| "extractFieldsFromJson (JArr obj) configTypeName fieldPath =
     (case (if hasObjects obj \<and> length obj > 0
            then (case extract_items obj configTypeName [] of
                    Inl e \<Rightarrow> Inl e
                  | Inr mergedFields \<Rightarrow> Inr (add_prefixed mergedFields fieldPath []))
            else Inr []) of
        Inl e \<Rightarrow> Inl e
      | Inr fieldsMap \<Rightarrow>
          (if hasPrimitives obj
           then (case array_values obj [] of
                   Inl e \<Rightarrow> Inl e
                 | Inr dv \<Rightarrow>
                     Inr (if length dv > 0
                          then AList.update (path_key fieldPath)
                                 \<lparr>modValues = [], distinctValues = dv, fieldType = Array\<rparr>
                                 fieldsMap
                          else fieldsMap))
           else Inr fieldsMap))"
| "extractFieldsFromJson (JObj kvs) configTypeName fieldPath =
     extract_entries kvs configTypeName fieldPath []"
| "extract_items [] configTypeName mergedFields = Inr mergedFields"
| "extract_items (item # rest) configTypeName mergedFields =
     (if item \<noteq> JNull \<and> typeof item = ''object'' \<and> \<not> isArray item
      then (case extractFieldsFromJson item configTypeName [] of
              Inl e \<Rightarrow> Inl e
            | Inr itemFields \<Rightarrow>
                extract_items rest configTypeName (merge_item_fields itemFields mergedFields))
      else extract_items rest configTypeName mergedFields)"
| "extract_entries [] configTypeName fieldPath fieldsMap = Inr fieldsMap"
| "extract_entries ((key, val) # rest) configTypeName fieldPath fieldsMap =
     (let newPath = child_path configTypeName fieldPath key
      in if val = JNull \<or> val = JUndefined
         then extract_entries rest configTypeName fieldPath
                (AList.update newPath
                   \<lparr>modValues = [], distinctValues = [''null''], fieldType = Primitive\<rparr>
                   fieldsMap)
         else if isArray val \<or> typeof val = ''object''
         then (case extractFieldsFromJson val configTypeName newPath of
                 Inl e \<Rightarrow> Inl e
               | Inr nestedFields \<Rightarrow>
                   extract_entries rest configTypeName fieldPath (set_all nestedFields fieldsMap))
         else (case js_String val of
                 Inl e \<Rightarrow> Inl e
               | Inr valueStr \<Rightarrow>
                   extract_entries rest configTypeName fieldPath
                     (AList.update newPath
                        \<lparr>modValues = [], distinctValues = [valueStr], fieldType = Primitive\<rparr>
                        fieldsMap)))"

section \<open>The aggregate merger\<close>

text \<open>
  \<^verbatim>\<open>mergeFieldAnalysis(combinedAnalysis, modAnalysis, modName)\<close>: the mod's set is created
  when it is missing, then every value of the mod's analysis is added to the mod's set and
  to the distinct values.
\<close>

definition mergeFieldAnalysis :: "FieldAnalysis \<Rightarrow> FieldAnalysis \<Rightarrow> string \<Rightarrow> FieldAnalysis" where
  "mergeFieldAnalysis combinedAnalysis modAnalysis modName =
     (let combined1 =
        (if \<not> map_has modName (modValues combinedAnalysis)
         then combinedAnalysis\<lparr>modValues := AList.update modName [] (modValues combinedAnalysis)\<rparr>
         else combinedAnalysis)
      in fold (\<lambda>v c. c\<lparr>modValues := AList.map_entry modName (set_add v) (modValues c),
                        distinctValues := set_add v (distinctValues c)\<rparr>)
           (distinctValues modAnalysis) combined1)"

text \<open>
  One turn of the loop over a document's fields (lines 26 to 33, and 59 to 66): the field
  is created with the kind of this analysis when the aggregate does not have it, and the
  analysis is merged into it.
\<close>

definition merge_field :: "string \<Rightarrow> FieldAnalysis \<Rightarrow> string \<Rightarrow> FieldsMap \<Rightarrow> FieldsMap" where
  "merge_field fieldPath analysis modName fieldAnalysisMap =
     (let map1 =
        (if \<not> map_has fieldPath fieldAnalysisMap
         then AList.update fieldPath
                \<lparr>modValues = [], distinctValues = [], fieldType = fieldType analysis\<rparr>
                fieldAnalysisMap
         else fieldAnalysisMap)
      in AList.map_entry fieldPath
           (\<lambda>combined. mergeFieldAnalysis combined analysis modName) map1)"

fun merge_mod_fields :: "FieldsMap \<Rightarrow> string \<Rightarrow> FieldsMap \<Rightarrow> FieldsMap" where
  "merge_mod_fields [] modName fieldAnalysisMap = fieldAnalysisMap"
| "merge_mod_fields ((fieldPath, analysis) # rest) modName fieldAnalysisMap =
     merge_mod_fields rest modName (merge_field fieldPath analysis modName fieldAnalysisMap)"

section \<open>The analysis driver\<close>

text \<open>
  A config store is the list of its entries in the order \<^verbatim>\<open>Object.entries\<close> gives them.
  The loops return the \<^verbatim>\<open>fieldAnalysisMap\<close> that is handed to
  \<^verbatim>\<open>writeAnalysisSummaries\<close>, or the exception that ended them.
\<close>

fun single_loop :: "(string \<times> json) list \<Rightarrow> string \<Rightarrow> FieldsMap \<Rightarrow> error + FieldsMap" where
  "single_loop [] configTypeName fieldAnalysisMap = Inr fieldAnalysisMap"
| "single_loop ((modName, configData) # rest) configTypeName fieldAnalysisMap =
     (if \<not> truthy configData then single_loop rest configTypeName fieldAnalysisMap
      else (case extractFieldsFromJson configData configTypeName [] of
              Inl e \<Rightarrow> Inl e
            | Inr modFields \<Rightarrow>
                single_loop rest configTypeName
                  (merge_mod_fields modFields modName fieldAnalysisMap)))"

definition single_fieldAnalysisMap :: "(string \<times> json) list \<Rightarrow> string \<Rightarrow> error + FieldsMap" where
  "single_fieldAnalysisMap configStore configTypeName = single_loop configStore configTypeName []"

text \<open>
  For a multi-config type a mod's entry is the record of its files, or nothing
  (\<^verbatim>\<open>if (!configFiles) continue\<close>). The file path is bound by the loop and not used.
\<close>

fun files_loop :: "(string \<times> json) list \<Rightarrow> string \<Rightarrow> string \<Rightarrow> FieldsMap \<Rightarrow> error + FieldsMap" where
  "files_loop [] modName configTypeName fieldAnalysisMap = Inr fieldAnalysisMap"
| "files_loop ((filePath, configData) # rest) modName configTypeName fieldAnalysisMap =
     (if \<not> truthy configData then files_loop rest modName configTypeName fieldAnalysisMap
      else (case extractFieldsFromJson configData configTypeName [] of
              Inl e \<Rightarrow> Inl e
            | Inr modFields \<Rightarrow>
                files_loop rest modName configTypeName
                  (merge_mod_fields modFields modName fieldAnalysisMap)))"

fun multi_loop ::
  "(string \<times> (string \<times> json) list option) list \<Rightarrow> string \<Rightarrow> FieldsMap \<Rightarrow> error + FieldsMap" where
  "multi_loop [] configTypeName fieldAnalysisMap = Inr fieldAnalysisMap"
| "multi_loop ((modName, None) # rest) configTypeName fieldAnalysisMap =
     multi_loop rest configTypeName fieldAnalysisMap"
| "multi_loop ((modName, Some configFiles) # rest) configTypeName fieldAnalysisMap =
     (case files_loop configFiles modName configTypeName fieldAnalysisMap of
        Inl e \<Rightarrow> Inl e
      | Inr map1 \<Rightarrow> multi_loop rest configTypeName map1)"

definition multi_fieldAnalysisMap ::
  "(string \<times> (string \<times> json) list option) list \<Rightarrow> string \<Rightarrow> error + FieldsMap" where
  "multi_fieldAnalysisMap configStore configTypeName = multi_loop configStore configTypeName []"

section \<open>The summary builder\<close>

record PerModFieldInfo =
  pm_fieldPath :: string
  pm_fieldType :: FieldType
  pm_values :: "string list"

record PerFieldModInfo =
  pf_modName :: string
  pf_values :: "string list"

record PerFieldSummary =
  ps_fieldType :: FieldType
  ps_mods :: "PerFieldModInfo list"
  ps_distinctValues :: "string list"

text \<open>
  \<^verbatim>\<open>Array.prototype.sort\<close> belongs to the engine that runs the program: ECMAScript fixes
  what it returns for a consistent comparison function, and for the default comparison of
  strings by code units, and leaves the algorithm open. The builders sort lists of three
  types, and take the engine's sort at each of them as a parameter.
\<close>

record sort_engine =
  sort_strings :: "string list \<Rightarrow> string list"
  sort_rows ::
    "(PerModFieldInfo \<Rightarrow> PerModFieldInfo \<Rightarrow> int) \<Rightarrow> PerModFieldInfo list \<Rightarrow> PerModFieldInfo list"
  sort_mods ::
    "(PerFieldModInfo \<Rightarrow> PerFieldModInfo \<Rightarrow> int) \<Rightarrow> PerFieldModInfo list \<Rightarrow> PerFieldModInfo list"

text \<open>
  The order in which the own properties of a plain object are enumerated, by
  \<^verbatim>\<open>for ... in\<close> and by \<^verbatim>\<open>JSON.stringify\<close>: the keys that are array indices (the
  decimal form, without leading zeros, of an integer below \<open>2\<^sup>3\<^sup>2 - 1\<close>) come first, in
  ascending order of their values, and the other keys follow in creation order.
\<close>

definition index_value :: "string \<Rightarrow> int" where
  "index_value k = fold (\<lambda>c n. 10 * n + (of_char c - 48)) k 0"

definition is_array_index :: "string \<Rightarrow> bool" where
  "is_array_index k =
     (k \<noteq> [] \<and> list_all (\<lambda>c. c \<in> set ''0123456789'') k \<and>
      (length k = 1 \<or> hd k \<noteq> CHR ''0'') \<and> index_value k < 4294967295)"

definition own_property_order :: "(string \<times> 'v) list \<Rightarrow> (string \<times> 'v) list" where
  "own_property_order props =
     sort_key (\<lambda>(k, v). index_value k) (filter (\<lambda>(k, v). is_array_index k) props) @
     filter (\<lambda>(k, v). \<not> is_array_index k) props"

text \<open>
  The summaries are plain objects (\<^verbatim>\<open>{}\<close>). While a builder fills one, it is the list
  of its own properties in creation order; what the builder returns is that list in
  enumeration order. A plain object inherits the properties of \<^verbatim>\<open>Object.prototype\<close>:
  for a mod of such a name \<^verbatim>\<open>perModSummaries[modName]\<close> is truthy before any row is
  stored, no array is created, and \<^verbatim>\<open>push\<close> is not a function of the inherited value.
\<close>

definition Object_prototype_keys :: "string list" where
  "Object_prototype_keys =
     [''constructor'', ''__defineGetter__'', ''__defineSetter__'', ''hasOwnProperty'',
      ''__lookupGetter__'', ''__lookupSetter__'', ''isPrototypeOf'', ''propertyIsEnumerable'',
      ''toString'', ''valueOf'', ''__proto__'', ''toLocaleString'']"

fun push_mod_rows ::
  "sort_engine \<Rightarrow> string \<Rightarrow> FieldAnalysis \<Rightarrow> (string \<times> string list) list \<Rightarrow>
   (string \<times> PerModFieldInfo list) list \<Rightarrow> error + (string \<times> PerModFieldInfo list) list" where
  "push_mod_rows engine fieldPath analysis [] perModSummaries = Inr perModSummaries"
| "push_mod_rows engine fieldPath analysis ((modName, vals) # rest) perModSummaries =
     (if modName \<in> set Object_prototype_keys then Inl TypeError
      else
        (let summaries1 =
           (if \<not> map_has modName perModSummaries
            then AList.update modName [] perModSummaries else perModSummaries)
         in push_mod_rows engine fieldPath analysis rest
              (AList.map_entry modName
                 (\<lambda>rows. rows @ [\<lparr>pm_fieldPath = fieldPath, pm_fieldType = fieldType analysis,
                                   pm_values = sort_strings engine vals\<rparr>])
                 summaries1)))"

fun perMod_loop ::
  "sort_engine \<Rightarrow> FieldsMap \<Rightarrow> (string \<times> PerModFieldInfo list) list \<Rightarrow>
   error + (string \<times> PerModFieldInfo list) list" where
  "perMod_loop engine [] perModSummaries = Inr perModSummaries"
| "perMod_loop engine ((fieldPath, analysis) # rest) perModSummaries =
     (case push_mod_rows engine fieldPath analysis (modValues analysis) perModSummaries of
        Inl e \<Rightarrow> Inl e
      | Inr summaries1 \<Rightarrow> perMod_loop engine rest summaries1)"

definition buildPerModSummaries ::
  "sort_engine \<Rightarrow> (string \<Rightarrow> string \<Rightarrow> int) \<Rightarrow> FieldsMap \<Rightarrow>
   error + (string \<times> PerModFieldInfo list) list" where
  "buildPerModSummaries engine localeCompare fieldAnalysisMap =
     (case perMod_loop engine fieldAnalysisMap [] of
        Inl e \<Rightarrow> Inl e
      | Inr perModSummaries \<Rightarrow>
          Inr (own_property_order
                 (map (\<lambda>(modName, rows).
                         (modName,
                          sort_rows engine
                            (\<lambda>a b. localeCompare (pm_fieldPath a) (pm_fieldPath b)) rows))
                    perModSummaries)))"

text \<open>
  In \<^verbatim>\<open>buildPerFieldSummaries\<close> the assignment \<^verbatim>\<open>perFieldSummaries[fieldPath] = ...\<close>
  creates or replaces an own property, except for the path \<^verbatim>\<open>__proto__\<close>, where it sets
  the prototype and leaves the own properties as they are.
\<close>

fun perField_loop ::
  "sort_engine \<Rightarrow> (string \<Rightarrow> string \<Rightarrow> int) \<Rightarrow> FieldsMap \<Rightarrow> (string \<times> PerFieldSummary) list \<Rightarrow>
   (string \<times> PerFieldSummary) list" where
  "perField_loop engine localeCompare [] perFieldSummaries = perFieldSummaries"
| "perField_loop engine localeCompare ((fieldPath, analysis) # rest) perFieldSummaries =
     (let mods = map (\<lambda>(modName, vals).
                        \<lparr>pf_modName = modName, pf_values = sort_strings engine vals\<rparr>)
                   (modValues analysis);
          mods1 = sort_mods engine (\<lambda>a b. localeCompare (pf_modName a) (pf_modName b)) mods;
          summary = \<lparr>ps_fieldType = fieldType analysis, ps_mods = mods1,
                     ps_distinctValues = sort_strings engine (distinctValues analysis)\<rparr>
      in perField_loop engine localeCompare rest
           (if fieldPath = ''__proto__'' then perFieldSummaries
            else AList.update fieldPath summary perFieldSummaries))"

definition buildPerFieldSummaries ::
  "sort_engine \<Rightarrow> (string \<Rightarrow> string \<Rightarrow> int) \<Rightarrow> FieldsMap \<Rightarrow> (string \<times> PerFieldSummary) list" where
  "buildPerFieldSummaries engine localeCompare fieldAnalysisMap =
     own_property_order (perField_loop engine localeCompare fieldAnalysisMap [])"

text \<open>
  \<^verbatim>\<open>writeAnalysisSummaries\<close> builds both summaries and writes them; the model returns the
  two values that are written.
\<close>

type_synonym Summaries =
  "(string \<times> PerModFieldInfo list) list \<times> (string \<times> PerFieldSummary) list"

definition writeAnalysisSummaries ::
  "sort_engine \<Rightarrow> (string \<Rightarrow> string \<Rightarrow> int) \<Rightarrow> FieldsMap \<Rightarrow> error + Summaries" where
  "writeAnalysisSummaries engine localeCompare fieldAnalysisMap =
     (case buildPerModSummaries engine localeCompare fieldAnalysisMap of
        Inl e \<Rightarrow> Inl e
      | Inr perModSummary \<Rightarrow>
          Inr (perModSummary, buildPerFieldSummaries engine localeCompare fieldAnalysisMap))"

definition analyzeSingleConfigType ::
  "sort_engine \<Rightarrow> (string \<Rightarrow> string \<Rightarrow> int) \<Rightarrow> (string \<times> json) list \<Rightarrow> string \<Rightarrow>
   error + Summaries" where
  "analyzeSingleConfigType engine localeCompare configStore configTypeName =
     (case single_fieldAnalysisMap configStore configTypeName of
        Inl e \<Rightarrow> Inl e
      | Inr fieldAnalysisMap \<Rightarrow> writeAnalysisSummaries engine localeCompare fieldAnalysisMap)"

definition analyzeMultiConfigType ::
  "sort_engine \<Rightarrow> (string \<Rightarrow> string \<Rightarrow> int) \<Rightarrow>
   (string \<times> (string \<times> json) list option) list \<Rightarrow> string \<Rightarrow> error + Summaries" where
  "analyzeMultiConfigType engine localeCompare configStore configTypeName =
     (case multi_fieldAnalysisMap configStore configTypeName of
        Inl e \<Rightarrow> Inl e
      | Inr fieldAnalysisMap \<Rightarrow> writeAnalysisSummaries engine localeCompare fieldAnalysisMap)"

text \<open>
  \<^verbatim>\<open>analyzeModConfigs(ctx)\<close> analyses the six config types in order. Each type's two
  summaries are written before the next type starts, so an exception leaves the summaries
  of the types before it on disk and ends the run. The model returns the summaries written,
  with their config type names, and the exception if there was one.
\<close>

record AnalysisContext =
  manifestConfigs :: "(string \<times> json) list"
  titleScreenConfigs :: "(string \<times> json) list"
  addonConfigs :: "(string \<times> json) list"
  settingConfigs :: "(string \<times> json) list"
  planetConfigs :: "(string \<times> (string \<times> json) list option) list"
  systemConfigs :: "(string \<times> (string \<times> json) list option) list"

fun run_in_order ::
  "(string \<times> (error + Summaries)) list \<Rightarrow> (string \<times> Summaries) list \<times> error option" where
  "run_in_order [] = ([], None)"
| "run_in_order ((configTypeName, Inl e) # rest) = ([], Some e)"
| "run_in_order ((configTypeName, Inr s) # rest) =
     (case run_in_order rest of (written, r) \<Rightarrow> ((configTypeName, s) # written, r))"

definition analyzeModConfigs ::
  "sort_engine \<Rightarrow> (string \<Rightarrow> string \<Rightarrow> int) \<Rightarrow> AnalysisContext \<Rightarrow>
   (string \<times> Summaries) list \<times> error option" where
  "analyzeModConfigs engine localeCompare ctx =
     run_in_order
       [(''manifest'',
         analyzeSingleConfigType engine localeCompare (manifestConfigs ctx) ''manifest''),
        (''title-screen'',
         analyzeSingleConfigType engine localeCompare (titleScreenConfigs ctx) ''title-screen''),
        (''addon-manifest'',
         analyzeSingleConfigType engine localeCompare (addonConfigs ctx) ''addon-manifest''),
        (''default-config'',
         analyzeSingleConfigType engine localeCompare (settingConfigs ctx) ''default-config''),
        (''planets'', analyzeMultiConfigType engine localeCompare (planetConfigs ctx) ''planets''),
        (''systems'', analyzeMultiConfigType engine localeCompare (systemConfigs ctx) ''systems'')]"

section \<open>Properties: definitions\<close>

text \<open>
  The union invariant of one field: the distinct values are the union of the mods' value
  sets. An aggregate satisfies it when each of its fields does.
\<close>

definition values_union :: "(string \<times> string list) list \<Rightarrow> string set" where
  "values_union mv = \<Union> (set ` snd ` set mv)"

definition union_inv :: "FieldAnalysis \<Rightarrow> bool" where
  "union_inv a = (set (distinctValues a) = values_union (modValues a))"

definition agg_inv :: "FieldsMap \<Rightarrow> bool" where
  "agg_inv m = list_all (\<lambda>(p, a). union_inv a) m"

text \<open>
  The aggregate after a sequence of merge calls, each with its field path, the analysis
  merged and the mod's name: every state the driver's loops can reach is of this form,
  and so is every state in between two calls.
\<close>

fun merge_calls :: "(string \<times> FieldAnalysis \<times> string) list \<Rightarrow> FieldsMap \<Rightarrow> FieldsMap" where
  "merge_calls [] m = m"
| "merge_calls ((fieldPath, analysis, modName) # calls) m =
     merge_calls calls (merge_field fieldPath analysis modName m)"

text \<open>The first step of \<^const>\<open>mergeFieldAnalysis\<close>: the mod's set exists afterwards.\<close>

definition ensure_mod :: "string \<Rightarrow> (string \<times> string list) list \<Rightarrow> (string \<times> string list) list" where
  "ensure_mod e mv = (if \<not> map_has e mv then AList.update e [] mv else mv)"

text \<open>
  The analysis \<open>a\<close> merged for mod \<open>e\<close> under path \<open>p\<close> is absorbed by an aggregate when
  the field exists, the mod has a set there, and both that set and the distinct values
  contain every value of \<open>a\<close>.
\<close>

definition absorbed :: "string \<Rightarrow> FieldAnalysis \<Rightarrow> string \<Rightarrow> FieldsMap \<Rightarrow> bool" where
  "absorbed p a e m =
     (case map_of m p of
        None \<Rightarrow> False
      | Some c \<Rightarrow>
          (case map_of (modValues c) e of
             None \<Rightarrow> False
           | Some vs \<Rightarrow> set (distinctValues a) \<subseteq> set vs \<and>
                        set (distinctValues a) \<subseteq> set (distinctValues c)))"

text \<open>
  The elements the scalar branch of the extractor is written for (the test of
  \<^const>\<open>hasPrimitives\<close>), and those its loop turns into strings.
\<close>

definition scalar_or_null :: "json \<Rightarrow> bool" where
  "scalar_or_null item = (item = JNull \<or> typeof item \<noteq> ''object'')"

definition present :: "json \<Rightarrow> bool" where
  "present item = (item \<noteq> JNull \<and> item \<noteq> JUndefined)"

text \<open>
  A comparison function is consistent when the sign of \<open>cmp a b\<close> is the opposite of the
  sign of \<open>cmp b a\<close> and \<open>cmp a b \<le> 0\<close> is transitive; a list is sorted by it when
  \<open>cmp a b \<le> 0\<close> holds for every element \<open>a\<close> and every later element \<open>b\<close>.
\<close>

definition cmp_consistent :: "('a \<Rightarrow> 'a \<Rightarrow> int) \<Rightarrow> bool" where
  "cmp_consistent cmp =
     ((\<forall>a b. (cmp a b < 0) = (0 < cmp b a)) \<and>
      (\<forall>a b c. cmp a b \<le> 0 \<and> cmp b c \<le> 0 \<longrightarrow> cmp a c \<le> 0))"

definition sorted_by :: "('a \<Rightarrow> 'a \<Rightarrow> int) \<Rightarrow> 'a list \<Rightarrow> bool" where
  "sorted_by cmp xs = sorted_wrt (\<lambda>a b. cmp a b \<le> 0) xs"

text \<open>
  The stable sort by insertion from the left, for a comparison function that returns a
  negative number, zero or a positive number.
\<close>

fun insort_by :: "('a \<Rightarrow> 'a \<Rightarrow> int) \<Rightarrow> 'a \<Rightarrow> 'a list \<Rightarrow> 'a list" where
  "insort_by cmp x [] = [x]"
| "insort_by cmp x (y # ys) = (if cmp x y < 0 then x # y # ys else y # insort_by cmp x ys)"

definition Array_sort :: "('a \<Rightarrow> 'a \<Rightarrow> int) \<Rightarrow> 'a list \<Rightarrow> 'a list" where
  "Array_sort cmp xs = fold (insort_by cmp) xs []"

text \<open>
  What ECMAScript requires of a sort with a consistent comparison function: the result is
  sorted, is a permutation of the argument, and keeps the elements that compare equal in
  their order; and of the default sort of strings: a sorted permutation. An engine
  conforms when each of its sorts meets the requirement.
\<close>

definition stable_sort_of :: "('a \<Rightarrow> 'a \<Rightarrow> int) \<Rightarrow> 'a list \<Rightarrow> 'a list \<Rightarrow> bool" where
  "stable_sort_of cmp xs ys =
     (sorted_by cmp ys \<and> mset ys = mset xs \<and>
      list_all (\<lambda>k. filter (\<lambda>x. cmp k x = 0) ys = filter (\<lambda>x. cmp k x = 0) xs) xs)"

definition conforming :: "sort_engine \<Rightarrow> bool" where
  "conforming engine =
     ((\<forall>xs. sorted (sort_strings engine xs) \<and> mset (sort_strings engine xs) = mset xs) \<and>
      (\<forall>cmp xs. cmp_consistent cmp \<longrightarrow> stable_sort_of cmp xs (sort_rows engine cmp xs)) \<and>
      (\<forall>cmp xs. cmp_consistent cmp \<longrightarrow> stable_sort_of cmp xs (sort_mods engine cmp xs)))"

text \<open>
  Two conforming engines: both sort by insertion, the second one sorts the reversed list of
  strings.
\<close>

definition insertion_engine :: sort_engine where
  "insertion_engine = \<lparr>sort_strings = sort, sort_rows = Array_sort, sort_mods = Array_sort\<rparr>"

definition reversing_engine :: sort_engine where
  "reversing_engine =
     \<lparr>sort_strings = (\<lambda>xs. sort (rev xs)), sort_rows = Array_sort, sort_mods = Array_sort\<rparr>"

text \<open>
  The summaries of an aggregate, stated without loops. The mod names of an aggregate's
  fields, field after field (a mod is named once for each field it has values for); the
  rows of one mod, one for each field that names it, in the order of the fields; the by-mod
  summary, with one entry for each mod, created in the order of the first naming, and the
  mod's rows sorted by field path; the by-field summary, with each field's mods sorted by
  name. Both are listed in the enumeration order of a plain object. No summary is written
  when a mod has the name of a property of \<^verbatim>\<open>Object.prototype\<close>, and the field
  \<^verbatim>\<open>__proto__\<close> has no entry.
\<close>

definition mod_names :: "FieldsMap \<Rightarrow> string list" where
  "mod_names agg = concat (map (\<lambda>(p, a). map fst (modValues a)) agg)"

definition mod_rows :: "string \<Rightarrow> FieldsMap \<Rightarrow> PerModFieldInfo list" where
  "mod_rows e agg =
     concat (map (\<lambda>(p, a).
        map (\<lambda>(e', vals). \<lparr>pm_fieldPath = p, pm_fieldType = fieldType a, pm_values = sort vals\<rparr>)
          (filter (\<lambda>(e', vals). e' = e) (modValues a))) agg)"

definition mod_summary ::
  "(string \<Rightarrow> string \<Rightarrow> int) \<Rightarrow> FieldsMap \<Rightarrow> (string \<times> PerModFieldInfo list) list" where
  "mod_summary localeCompare agg =
     own_property_order
       (map (\<lambda>e. (e, Array_sort (\<lambda>a b. localeCompare (pm_fieldPath a) (pm_fieldPath b))
                       (mod_rows e agg)))
          (fold set_add (mod_names agg) []))"

definition field_summary ::
  "(string \<Rightarrow> string \<Rightarrow> int) \<Rightarrow> FieldsMap \<Rightarrow> (string \<times> PerFieldSummary) list" where
  "field_summary localeCompare agg =
     own_property_order
       (map (\<lambda>(p, a).
               (p, \<lparr>ps_fieldType = fieldType a,
                    ps_mods = Array_sort (\<lambda>a b. localeCompare (pf_modName a) (pf_modName b))
                                (map (\<lambda>(e, vals). \<lparr>pf_modName = e, pf_values = sort vals\<rparr>)
                                   (modValues a)),
                    ps_distinctValues = sort (distinctValues a)\<rparr>))
          (filter (\<lambda>(p, a). p \<noteq> ''__proto__'') agg))"

definition summaries_of ::
  "(string \<Rightarrow> string \<Rightarrow> int) \<Rightarrow> error + FieldsMap \<Rightarrow> error + Summaries" where
  "summaries_of localeCompare r =
     (case r of
        Inl e \<Rightarrow> Inl e
      | Inr agg \<Rightarrow>
          if list_ex (\<lambda>e. e \<in> set Object_prototype_keys) (mod_names agg) then Inl TypeError
          else Inr (mod_summary localeCompare agg, field_summary localeCompare agg))"

definition expected_run ::
  "(string \<Rightarrow> string \<Rightarrow> int) \<Rightarrow> AnalysisContext \<Rightarrow> (string \<times> Summaries) list \<times> error option" where
  "expected_run localeCompare ctx =
     run_in_order
       [(''manifest'',
         summaries_of localeCompare (single_fieldAnalysisMap (manifestConfigs ctx) ''manifest'')),
        (''title-screen'',
         summaries_of localeCompare
           (single_fieldAnalysisMap (titleScreenConfigs ctx) ''title-screen'')),
        (''addon-manifest'',
         summaries_of localeCompare
           (single_fieldAnalysisMap (addonConfigs ctx) ''addon-manifest'')),
        (''default-config'',
         summaries_of localeCompare
           (single_fieldAnalysisMap (settingConfigs ctx) ''default-config'')),
        (''planets'',
         summaries_of localeCompare (multi_fieldAnalysisMap (planetConfigs ctx) ''planets'')),
        (''systems'',
         summaries_of localeCompare (multi_fieldAnalysisMap (systemConfigs ctx) ''systems''))]"

definition rows_sorted ::
  "(string \<Rightarrow> string \<Rightarrow> int) \<Rightarrow> (string \<times> PerModFieldInfo list) list \<Rightarrow> bool" where
  "rows_sorted localeCompare perMod =
     list_all (\<lambda>(modName, rows).
        sorted_by (\<lambda>a b. localeCompare (pm_fieldPath a) (pm_fieldPath b)) rows \<and>
        list_all (\<lambda>r. sorted (pm_values r)) rows) perMod"

definition summary_sorted :: "(string \<Rightarrow> string \<Rightarrow> int) \<Rightarrow> PerFieldSummary \<Rightarrow> bool" where
  "summary_sorted localeCompare s =
     (sorted_by (\<lambda>a b. localeCompare (pf_modName a) (pf_modName b)) (ps_mods s) \<and>
      list_all (\<lambda>m. sorted (pf_values m)) (ps_mods s) \<and>
      sorted (ps_distinctValues s))"

definition fields_sorted ::
  "(string \<Rightarrow> string \<Rightarrow> int) \<Rightarrow> (string \<times> PerFieldSummary) list \<Rightarrow> bool" where
  "fields_sorted localeCompare perField =
     list_all (\<lambda>(fieldPath, s). summary_sorted localeCompare s) perField"

definition summaries_sorted :: "(string \<Rightarrow> string \<Rightarrow> int) \<Rightarrow> Summaries \<Rightarrow> bool" where
  "summaries_sorted localeCompare s =
     (rows_sorted localeCompare (fst s) \<and> fields_sorted localeCompare (snd s))"

text \<open>
  One turn of the inner loop of \<^const>\<open>buildPerModSummaries\<close> on a mod and its row, and the
  list of the pairs the two loops go through.
\<close>

definition push_row ::
  "string \<times> PerModFieldInfo \<Rightarrow> (string \<times> PerModFieldInfo list) list \<Rightarrow>
   (string \<times> PerModFieldInfo list) list" where
  "push_row c s =
     AList.map_entry (fst c) (\<lambda>rows. rows @ [snd c])
       (if \<not> map_has (fst c) s then AList.update (fst c) [] s else s)"

definition contributions :: "sort_engine \<Rightarrow> FieldsMap \<Rightarrow> (string \<times> PerModFieldInfo) list" where
  "contributions engine agg =
     concat (map (\<lambda>(p, a).
        map (\<lambda>(e, vals).
               (e, \<lparr>pm_fieldPath = p, pm_fieldType = fieldType a,
                    pm_values = sort_strings engine vals\<rparr>))
          (modValues a)) agg)"

text \<open>The entry an object stores for a key whose value is \<^verbatim>\<open>null\<close> or absent.\<close>

definition null_entry :: FieldAnalysis where
  "null_entry = \<lparr>modValues = [], distinctValues = [''null''], fieldType = Primitive\<rparr>"

text \<open>
  A consistent comparison of strings, by code units; a store of two mods with the aggregate
  it gives as a single-config store, and the one it gives as the files of one mod; a
  context whose mods and fields have names that are array indices, and the summaries that
  are written for it.
\<close>

definition codeunit_compare :: "string \<Rightarrow> string \<Rightarrow> int" where
  "codeunit_compare a b = (if a < b then - 1 else if a = b then 0 else 1)"

definition example_store :: "(string \<times> json) list" where
  "example_store =
     [(''modB'', JObj [(''name'', JStr ''b''), (''tags'', JArr [JNum 1, JNum 2])]),
      (''modA'', JObj [(''name'', JStr ''a''), (''tags'', JArr [JNum 2])])]"

definition example_aggregate :: FieldsMap where
  "example_aggregate =
     [(''name'',
       \<lparr>modValues = [(''modB'', [''b'']), (''modA'', [''a''])], distinctValues = [''b'', ''a''],
        fieldType = Primitive\<rparr>),
      (''tags'',
       \<lparr>modValues = [(''modB'', [''1'', ''2'']), (''modA'', [''2''])],
        distinctValues = [''1'', ''2''], fieldType = Array\<rparr>)]"

definition example_files_aggregate :: FieldsMap where
  "example_files_aggregate =
     [(''name'',
       \<lparr>modValues = [(''modA'', [''b'', ''a''])], distinctValues = [''b'', ''a''],
        fieldType = Primitive\<rparr>),
      (''tags'',
       \<lparr>modValues = [(''modA'', [''1'', ''2''])], distinctValues = [''1'', ''2''],
        fieldType = Array\<rparr>)]"

definition example_ctx :: AnalysisContext where
  "example_ctx =
     \<lparr>manifestConfigs =
        [(''5'', JObj [(''7'', JNum 1), (''name'', JStr ''b'')]),
         (''9'', JObj [(''3'', JBool True)]),
         (''10'', JObj [(''7'', JNum 2)])],
      titleScreenConfigs = [],
      addonConfigs = [],
      settingConfigs = [],
      planetConfigs = [(''modA'', Some example_store)],
      systemConfigs = []\<rparr>"

definition example_written :: "(string \<times> Summaries) list" where
  "example_written =
     [(''manifest'',
       [(''5'',
         [\<lparr>pm_fieldPath = ''7'', pm_fieldType = Primitive, pm_values = [''1'']\<rparr>,
          \<lparr>pm_fieldPath = ''name'', pm_fieldType = Primitive, pm_values = [''b'']\<rparr>]),
        (''9'',
         [\<lparr>pm_fieldPath = ''3'', pm_fieldType = Primitive, pm_values = [''true'']\<rparr>]),
        (''10'',
         [\<lparr>pm_fieldPath = ''7'', pm_fieldType = Primitive, pm_values = [''2'']\<rparr>])],
       [(''3'',
         \<lparr>ps_fieldType = Primitive,
          ps_mods = [\<lparr>pf_modName = ''9'', pf_values = [''true'']\<rparr>],
          ps_distinctValues = [''true'']\<rparr>),
        (''7'',
         \<lparr>ps_fieldType = Primitive,
          ps_mods = [\<lparr>pf_modName = ''10'', pf_values = [''2'']\<rparr>,
                     \<lparr>pf_modName = ''5'', pf_values = [''1'']\<rparr>],
          ps_distinctValues = [''1'', ''2'']\<rparr>),
        (''name'',
         \<lparr>ps_fieldType = Primitive,
          ps_mods = [\<lparr>pf_modName = ''5'', pf_values = [''b'']\<rparr>],
          ps_distinctValues = [''b'']\<rparr>)]),
      (''title-screen'', [], []), (''addon-manifest'', [], []), (''default-config'', [], []),
      (''planets'',
       [(''modA'',
         [\<lparr>pm_fieldPath = ''name'', pm_fieldType = Primitive, pm_values = [''a'', ''b'']\<rparr>,
          \<lparr>pm_fieldPath = ''tags'', pm_fieldType = Array, pm_values = [''1'', ''2'']\<rparr>])],
       [(''name'',
         \<lparr>ps_fieldType = Primitive,
          ps_mods = [\<lparr>pf_modName = ''modA'', pf_values = [''a'', ''b'']\<rparr>],
          ps_distinctValues = [''a'', ''b'']\<rparr>),
        (''tags'',
         \<lparr>ps_fieldType = Array,
          ps_mods = [\<lparr>pf_modName = ''modA'', pf_values = [''1'', ''2'']\<rparr>],
          ps_distinctValues = [''1'', ''2'']\<rparr>)]),
      (''systems'', [], [])]"

section \<open>Sets and maps\<close>

lemma set_set_add [simp]: "set (set_add v s) = insert v (set s)"
  by (auto simp: set_add_def)

lemma set_fold_set_add [simp]: "set (fold set_add vs s) = set vs \<union> set s"
  by (induction vs arbitrary: s) auto

lemma set_add_absorb: "v \<in> set s \<Longrightarrow> set_add v s = s"
  by (simp add: set_add_def)

lemma fold_set_add_absorb: "set vs \<subseteq> set s \<Longrightarrow> fold set_add vs s = s"
  by (induction vs arbitrary: s) (auto simp: set_add_absorb)

lemma map_entry_comp: "AList.map_entry k f (AList.map_entry k g m) = AList.map_entry k (\<lambda>x. f (g x)) m"
  by (induction m) auto

lemma map_entry_id: "map_of m k = Some x \<Longrightarrow> f x = x \<Longrightarrow> AList.map_entry k f m = m"
  by (induction m) (auto split: if_splits)

lemma map_entry_id_fun: "AList.map_entry k (\<lambda>x. x) m = m"
  by (induction m) auto

lemma fold_merge_step:
  "fold (\<lambda>v c. c\<lparr>modValues := AList.map_entry e (set_add v) (modValues c),
                  distinctValues := set_add v (distinctValues c)\<rparr>) vs c =
   c\<lparr>modValues := AList.map_entry e (fold set_add vs) (modValues c),
     distinctValues := fold set_add vs (distinctValues c)\<rparr>"
proof (induction vs arbitrary: c)
  case Nil
  show ?case by (simp add: map_entry_id_fun)
next
  case (Cons v vs)
  show ?case by (simp add: Cons.IH map_entry_comp)
qed

section \<open>The merge in closed form and the union invariant\<close>

lemma mergeFieldAnalysis_closed:
  "mergeFieldAnalysis c a e =
   c\<lparr>modValues := AList.map_entry e (fold set_add (distinctValues a)) (ensure_mod e (modValues c)),
     distinctValues := fold set_add (distinctValues a) (distinctValues c)\<rparr>"
  by (simp add: mergeFieldAnalysis_def fold_merge_step ensure_mod_def Let_def)

lemma map_has_ensure_mod: "map_has e (ensure_mod e mv)"
  by (simp add: ensure_mod_def map_has_def update_conv')

lemma values_union_update_new:
  "\<not> map_has e mv \<Longrightarrow> values_union (AList.update e [] mv) = values_union mv"
  by (induction mv) (auto simp: values_union_def map_has_def split: if_splits)

lemma values_union_ensure_mod [simp]: "values_union (ensure_mod e mv) = values_union mv"
  by (simp add: ensure_mod_def values_union_update_new)

lemma values_union_map_entry:
  "map_has e mv \<Longrightarrow> (\<And>x. set (f x) = V \<union> set x) \<Longrightarrow>
   values_union (AList.map_entry e f mv) = V \<union> values_union mv"
  by (induction mv) (auto simp: values_union_def map_has_def split: if_splits)

lemma union_inv_mergeFieldAnalysis:
  "union_inv c \<Longrightarrow> union_inv (mergeFieldAnalysis c a e)"
  unfolding union_inv_def mergeFieldAnalysis_closed
  by (simp add: values_union_map_entry [OF map_has_ensure_mod, where V = "set (distinctValues a)"])

lemma list_all_update:
  "list_all P m \<Longrightarrow> P (k, v) \<Longrightarrow> list_all P (AList.update k v m)"
  by (induction m) auto

lemma list_all_map_entry:
  "list_all P m \<Longrightarrow> (\<And>x. P (k, x) \<Longrightarrow> P (k, f x)) \<Longrightarrow> list_all P (AList.map_entry k f m)"
  by (induction m) auto

lemma union_inv_new: "union_inv \<lparr>modValues = [], distinctValues = [], fieldType = t\<rparr>"
  by (simp add: union_inv_def values_union_def)

lemma agg_inv_merge_field: "agg_inv m \<Longrightarrow> agg_inv (merge_field p a e m)"
proof -
  assume m: "agg_inv m"
  let ?P = "\<lambda>(p, a). union_inv a"
  let ?m1 = "if \<not> map_has p m
             then AList.update p \<lparr>modValues = [], distinctValues = [], fieldType = fieldType a\<rparr> m
             else m"
  have "list_all ?P ?m1"
    using m by (simp add: agg_inv_def list_all_update union_inv_new)
  then have "list_all ?P (AList.map_entry p (\<lambda>c. mergeFieldAnalysis c a e) ?m1)"
    by (rule list_all_map_entry) (simp add: union_inv_mergeFieldAnalysis)
  then show ?thesis
    by (simp add: agg_inv_def merge_field_def Let_def)
qed

lemma agg_inv_merge_calls: "agg_inv m \<Longrightarrow> agg_inv (merge_calls calls m)"
  by (induction calls m rule: merge_calls.induct) (auto simp: agg_inv_merge_field)

text \<open>The loops of the driver only make such calls, so they keep the invariant.\<close>

lemma agg_inv_merge_mod_fields:
  "agg_inv m \<Longrightarrow> agg_inv (merge_mod_fields fs e m)"
  by (induction fs e m rule: merge_mod_fields.induct) (auto simp: agg_inv_merge_field)

lemma agg_inv_single_loop:
  "agg_inv m \<Longrightarrow> single_loop store configTypeName m = Inr m' \<Longrightarrow> agg_inv m'"
  by (induction store configTypeName m rule: single_loop.induct)
     (auto simp: agg_inv_merge_mod_fields split: if_splits sum.splits)

lemma agg_inv_files_loop:
  "agg_inv m \<Longrightarrow> files_loop files e configTypeName m = Inr m' \<Longrightarrow> agg_inv m'"
  by (induction files e configTypeName m rule: files_loop.induct)
     (auto simp: agg_inv_merge_mod_fields split: if_splits sum.splits)

lemma agg_inv_multi_loop:
  "agg_inv m \<Longrightarrow> multi_loop store configTypeName m = Inr m' \<Longrightarrow> agg_inv m'"
  by (induction store configTypeName m rule: multi_loop.induct)
     (auto split: sum.splits dest: agg_inv_files_loop)

lemma example_single: "single_fieldAnalysisMap example_store ''manifest'' = Inr example_aggregate"
  by code_simp

lemma example_multi:
  "multi_fieldAnalysisMap [(''modA'', Some example_store)] ''planets'' =
   Inr example_files_aggregate"
  by code_simp

section \<open>Absorption\<close>

lemma ensure_mod_present: "map_of mv e = Some vs \<Longrightarrow> ensure_mod e mv = mv"
  by (simp add: ensure_mod_def map_has_def)

lemma map_of_ensure_mod:
  "map_of (ensure_mod e mv) e' =
     (if e' = e then Some (case map_of mv e of None \<Rightarrow> [] | Some vs \<Rightarrow> vs) else map_of mv e')"
  by (auto simp: ensure_mod_def map_has_def update_conv')

lemma mergeFieldAnalysis_absorbed:
  assumes "map_of (modValues c) e = Some vs"
    and "set (distinctValues a) \<subseteq> set vs"
    and "set (distinctValues a) \<subseteq> set (distinctValues c)"
  shows "mergeFieldAnalysis c a e = c"
proof -
  have "AList.map_entry e (fold set_add (distinctValues a)) (modValues c) = modValues c"
    using assms(1) fold_set_add_absorb [OF assms(2)] by (rule map_entry_id)
  moreover have "fold set_add (distinctValues a) (distinctValues c) = distinctValues c"
    using assms(3) by (rule fold_set_add_absorb)
  ultimately show ?thesis
    by (simp add: mergeFieldAnalysis_closed ensure_mod_present [OF assms(1)])
qed

lemma merge_field_absorbed: "absorbed p a e m \<Longrightarrow> merge_field p a e m = m"
proof -
  assume ab: "absorbed p a e m"
  then obtain c where c: "map_of m p = Some c"
    by (auto simp: absorbed_def split: option.splits)
  with ab have "mergeFieldAnalysis c a e = c"
    by (auto simp: absorbed_def split: option.splits intro: mergeFieldAnalysis_absorbed)
  with c have "AList.map_entry p (\<lambda>combined. mergeFieldAnalysis combined a e) m = m"
    by (intro map_entry_id) simp_all
  with c show ?thesis
    by (simp add: merge_field_def map_has_def)
qed

lemma map_of_merge_field:
  "map_of (merge_field p a e m) p' =
     (if p' = p
      then Some (mergeFieldAnalysis
                   (case map_of m p of
                      None \<Rightarrow> \<lparr>modValues = [], distinctValues = [], fieldType = fieldType a\<rparr>
                    | Some c \<Rightarrow> c) a e)
      else map_of m p')"
  by (auto simp: merge_field_def Let_def map_has_def map_of_map_entry update_conv')

lemma modValues_mergeFieldAnalysis:
  "map_of (modValues (mergeFieldAnalysis c a e)) e' =
     (if e' = e
      then Some (fold set_add (distinctValues a) (case map_of (modValues c) e of None \<Rightarrow> [] | Some vs \<Rightarrow> vs))
      else map_of (modValues c) e')"
  by (simp add: mergeFieldAnalysis_closed map_of_map_entry map_of_ensure_mod)

lemma distinctValues_mergeFieldAnalysis:
  "distinctValues (mergeFieldAnalysis c a e) = fold set_add (distinctValues a) (distinctValues c)"
  by (simp add: mergeFieldAnalysis_closed)

lemma fieldType_mergeFieldAnalysis: "fieldType (mergeFieldAnalysis c a e) = fieldType c"
  by (simp add: mergeFieldAnalysis_closed)

lemma absorbed_merge_field_same: "absorbed p a e (merge_field p a e m)"
  by (simp add: absorbed_def map_of_merge_field modValues_mergeFieldAnalysis
      distinctValues_mergeFieldAnalysis)

lemma absorbed_merge_field_mono:
  "absorbed p a e m \<Longrightarrow> absorbed p a e (merge_field p' a' e' m)"
  by (auto simp: absorbed_def map_of_merge_field modValues_mergeFieldAnalysis
      distinctValues_mergeFieldAnalysis split: option.splits)

lemma absorbed_merge_mod_fields_mono:
  "absorbed p a e m \<Longrightarrow> absorbed p a e (merge_mod_fields fs e' m)"
  by (induction fs e' m rule: merge_mod_fields.induct) (auto simp: absorbed_merge_field_mono)

lemma merge_mod_fields_absorbs:
  "list_all (\<lambda>(p, a). absorbed p a e (merge_mod_fields fs e m)) fs"
proof (induction fs arbitrary: m)
  case Nil
  show ?case by simp
next
  case (Cons f fs)
  obtain p a where f: "f = (p, a)" by (cases f)
  have "absorbed p a e (merge_mod_fields fs e (merge_field p a e m))"
    by (rule absorbed_merge_mod_fields_mono) (rule absorbed_merge_field_same)
  with Cons.IH [of "merge_field p a e m"] show ?case
    by (simp add: f)
qed

lemma merge_mod_fields_absorbed:
  "list_all (\<lambda>(p, a). absorbed p a e m) fs \<Longrightarrow> merge_mod_fields fs e m = m"
  by (induction fs) (auto simp: merge_field_absorbed)

section \<open>Arrays of scalars\<close>

lemma scalar_js_String: "scalar_or_null item \<Longrightarrow> \<exists>s. js_String item = Inr s"
  by (cases item) (auto simp: scalar_or_null_def)

lemma hasObjects_scalars: "list_all scalar_or_null obj \<Longrightarrow> \<not> hasObjects obj"
  by (auto simp: hasObjects_def scalar_or_null_def list_all_iff list_ex_iff)

lemma hasPrimitives_scalars: "list_all scalar_or_null obj \<Longrightarrow> obj \<noteq> [] \<Longrightarrow> hasPrimitives obj"
  by (cases obj) (auto simp: hasPrimitives_def scalar_or_null_def)

lemma distinct_set_add: "distinct s \<Longrightarrow> distinct (set_add v s)"
  by (simp add: set_add_def)

lemma array_values_scalars:
  "list_all scalar_or_null obj \<Longrightarrow> distinct dv \<Longrightarrow>
   \<exists>dv'. array_values obj dv = Inr dv' \<and> distinct dv' \<and>
         Inr ` set dv' = Inr ` set dv \<union> js_String ` set (filter present obj)"
proof (induction obj arbitrary: dv)
  case Nil
  then show ?case by simp
next
  case (Cons item obj)
  show ?case
  proof (cases "present item")
    case False
    then have "array_values (item # obj) dv = array_values obj dv"
      and "filter present (item # obj) = filter present obj"
      by (auto simp: present_def)
    moreover from Cons.prems have "list_all scalar_or_null obj" by simp
    ultimately show ?thesis
      using Cons.IH [of dv] Cons.prems(2) by simp
  next
    case True
    from Cons.prems obtain s where s: "js_String item = Inr s"
      using scalar_js_String [of item] by auto
    from Cons.prems have "list_all scalar_or_null obj" "distinct (set_add s dv)"
      by (simp_all add: distinct_set_add)
    from Cons.IH [OF this] obtain dv' where
      "array_values obj (set_add s dv) = Inr dv'" "distinct dv'"
      "Inr ` set dv' = Inr ` set (set_add s dv) \<union> js_String ` set (filter present obj)"
      by blast
    moreover from True s have "array_values (item # obj) dv = array_values obj (set_add s dv)"
      and "js_String ` set (filter present (item # obj)) =
           insert (Inr s) (js_String ` set (filter present obj))"
      by (auto simp: present_def)
    ultimately show ?thesis
      by auto
  qed
qed

section \<open>The kind of a field in the aggregate\<close>

lemma fieldType_merge_field_kept:
  "map_of m p = Some c \<Longrightarrow>
   \<exists>c'. map_of (merge_field p' a e m) p = Some c' \<and> fieldType c' = fieldType c"
  by (auto simp: map_of_merge_field fieldType_mergeFieldAnalysis)

lemma fieldType_merge_field_new:
  "map_of m p = None \<Longrightarrow>
   \<exists>c'. map_of (merge_field p a e m) p = Some c' \<and> fieldType c' = fieldType a"
  by (simp add: map_of_merge_field fieldType_mergeFieldAnalysis)

lemma fieldType_merge_calls_kept:
  "map_of m p = Some c \<Longrightarrow>
   \<exists>c'. map_of (merge_calls calls m) p = Some c' \<and> fieldType c' = fieldType c"
proof (induction calls m arbitrary: c rule: merge_calls.induct)
  case (1 m)
  then show ?case by simp
next
  case (2 p' a e calls m)
  from fieldType_merge_field_kept [OF "2.prems", of p' a e] obtain c1 where
    c1: "map_of (merge_field p' a e m) p = Some c1" "fieldType c1 = fieldType c"
    by blast
  from "2.IH" [OF c1(1)] c1(2) show ?case by simp
qed

section \<open>Sorting with a comparison function\<close>

lemma set_insort_by [simp]: "set (insort_by cmp x ys) = insert x (set ys)"
  by (induction ys) auto

lemma set_fold_insort_by: "set (fold (insort_by cmp) xs acc) = set xs \<union> set acc"
  by (induction xs arbitrary: acc) auto

lemma set_Array_sort [simp]: "set (Array_sort cmp xs) = set xs"
  by (simp add: Array_sort_def set_fold_insort_by)

lemma sorted_by_insort_by:
  assumes "cmp_consistent cmp" and "sorted_by cmp ys"
  shows "sorted_by cmp (insort_by cmp x ys)"
  using assms(2)
proof (induction ys)
  case Nil
  show ?case by (simp add: sorted_by_def)
next
  case (Cons y ys)
  have flip: "cmp b a \<le> 0" if "\<not> cmp a b < 0" for a b
  proof -
    from assms(1) have "(cmp b a < 0) = (0 < cmp a b)" "(cmp a b < 0) = (0 < cmp b a)"
      unfolding cmp_consistent_def by blast+
    with that show ?thesis by linarith
  qed
  have trans: "cmp a c \<le> 0" if "cmp a b \<le> 0" "cmp b c \<le> 0" for a b c
    using assms(1) that unfolding cmp_consistent_def by blast
  from Cons.prems have ys: "sorted_by cmp ys" and y: "\<And>z. z \<in> set ys \<Longrightarrow> cmp y z \<le> 0"
    by (simp_all add: sorted_by_def)
  show ?case
  proof (cases "cmp x y < 0")
    case True
    then have xy: "cmp x y \<le> 0" by simp
    have "cmp x z \<le> 0" if "z \<in> set ys" for z
      using trans [OF xy y [OF that]] .
    with xy Cons.prems True show ?thesis
      by (simp add: sorted_by_def)
  next
    case False
    then have yx: "cmp y x \<le> 0" by (rule flip)
    from Cons.IH [OF ys] have "sorted_by cmp (insort_by cmp x ys)" .
    with False yx y show ?thesis
      by (simp add: sorted_by_def)
  qed
qed

lemma sorted_by_fold_insort_by:
  assumes "cmp_consistent cmp"
  shows "sorted_by cmp acc \<Longrightarrow> sorted_by cmp (fold (insort_by cmp) xs acc)"
proof (induction xs arbitrary: acc)
  case Nil
  then show ?case by simp
next
  case (Cons x xs)
  from assms Cons.prems have "sorted_by cmp (insort_by cmp x acc)"
    by (rule sorted_by_insort_by)
  then have "sorted_by cmp (fold (insort_by cmp) xs (insort_by cmp x acc))"
    by (rule Cons.IH)
  then show ?case by simp
qed

lemma sorted_by_Array_sort: "cmp_consistent cmp \<Longrightarrow> sorted_by cmp (Array_sort cmp xs)"
  unfolding Array_sort_def by (rule sorted_by_fold_insort_by) (simp_all add: sorted_by_def)

lemma cmp_consistent_on_key:
  assumes "cmp_consistent cmp"
  shows "cmp_consistent (\<lambda>a b. cmp (f a) (f b))"
proof -
  have flip: "(cmp a b < 0) = (0 < cmp b a)" for a b
    using assms unfolding cmp_consistent_def by blast
  have trans: "cmp a c \<le> 0" if "cmp a b \<le> 0" "cmp b c \<le> 0" for a b c
    using assms that unfolding cmp_consistent_def by blast
  show ?thesis
    unfolding cmp_consistent_def
  proof (intro conjI allI impI)
    fix a b
    show "(cmp (f a) (f b) < 0) = (0 < cmp (f b) (f a))" by (rule flip)
  next
    fix a b c
    assume "cmp (f a) (f b) \<le> 0 \<and> cmp (f b) (f c) \<le> 0"
    then show "cmp (f a) (f c) \<le> 0" using trans by blast
  qed
qed

lemma codeunit_compare_less: "(codeunit_compare a b < 0) = (a < b)"
  by (simp add: codeunit_compare_def)

lemma codeunit_compare_greater: "(0 < codeunit_compare a b) = (b < a)"
  by (simp add: codeunit_compare_def not_less_iff_gr_or_eq)

lemma codeunit_compare_le: "(codeunit_compare a b \<le> 0) = (a \<le> b)"
  by (simp add: codeunit_compare_def not_less le_less)

lemma cmp_consistent_codeunit_compare: "cmp_consistent codeunit_compare"
  unfolding cmp_consistent_def codeunit_compare_less codeunit_compare_greater codeunit_compare_le
  by (intro conjI allI impI) (simp, elim conjE, rule order_trans)

section \<open>A stable sorted permutation is unique\<close>

lemma cmp_consistent_refl: "cmp_consistent cmp \<Longrightarrow> cmp x x = 0"
proof -
  assume "cmp_consistent cmp"
  then have "(cmp x x < 0) = (0 < cmp x x)"
    unfolding cmp_consistent_def by blast
  then show ?thesis by linarith
qed

lemma cmp_consistent_flip: "cmp_consistent cmp \<Longrightarrow> (cmp a b < 0) = (0 < cmp b a)"
  unfolding cmp_consistent_def by blast

lemma cmp_consistent_trans:
  "cmp_consistent cmp \<Longrightarrow> cmp a b \<le> 0 \<Longrightarrow> cmp b c \<le> 0 \<Longrightarrow> cmp a c \<le> 0"
  unfolding cmp_consistent_def by blast

lemma cmp_consistent_sym: "cmp_consistent cmp \<Longrightarrow> cmp a b = 0 \<Longrightarrow> cmp b a = 0"
proof -
  assume c: "cmp_consistent cmp" and ab: "cmp a b = 0"
  from cmp_consistent_flip [OF c, of a b] cmp_consistent_flip [OF c, of b a] ab
  show ?thesis by linarith
qed

lemma cmp_consistent_antisym:
  "cmp_consistent cmp \<Longrightarrow> cmp a b \<le> 0 \<Longrightarrow> cmp b a \<le> 0 \<Longrightarrow> cmp a b = 0"
proof -
  assume c: "cmp_consistent cmp" and ab: "cmp a b \<le> 0" and ba: "cmp b a \<le> 0"
  from cmp_consistent_flip [OF c, of a b] ab ba show ?thesis by linarith
qed

lemma sorted_by_Cons:
  "sorted_by cmp (x # xs) = ((\<forall>y\<in>set xs. cmp x y \<le> 0) \<and> sorted_by cmp xs)"
  by (simp add: sorted_by_def)

lemma stable_sorted_unique:
  assumes c: "cmp_consistent cmp"
  shows "sorted_by cmp ys \<Longrightarrow> sorted_by cmp zs \<Longrightarrow> mset ys = mset zs \<Longrightarrow>
         (\<And>k. k \<in> set ys \<Longrightarrow>
            filter (\<lambda>x. cmp k x = 0) ys = filter (\<lambda>x. cmp k x = 0) zs) \<Longrightarrow>
         ys = zs"
proof (induction ys arbitrary: zs)
  case Nil
  then show ?case by simp
next
  case (Cons y ys)
  from Cons.prems(3) have "zs \<noteq> []" by auto
  then obtain z zs' where zs: "zs = z # zs'" by (cases zs) auto
  from Cons.prems(3) have sets: "set (y # ys) = set zs" by (rule mset_eq_setD)
  have yz: "cmp y z \<le> 0"
  proof (cases "z = y")
    case True
    then show ?thesis by (simp add: cmp_consistent_refl [OF c])
  next
    case False
    with sets zs have "z \<in> set ys" by auto
    with Cons.prems(1) show ?thesis by (simp add: sorted_by_Cons)
  qed
  have zy: "cmp z y \<le> 0"
  proof (cases "z = y")
    case True
    then show ?thesis by (simp add: cmp_consistent_refl [OF c])
  next
    case False
    with sets zs have "y \<in> set zs'" by auto
    with Cons.prems(2) zs show ?thesis by (simp add: sorted_by_Cons)
  qed
  have eq: "cmp y z = 0" using c yz zy by (rule cmp_consistent_antisym)
  have "filter (\<lambda>x. cmp y x = 0) (y # ys) = filter (\<lambda>x. cmp y x = 0) zs"
    by (rule Cons.prems(4)) simp
  with eq zs have head: "y = z"
    by (simp add: cmp_consistent_refl [OF c])
  have "ys = zs'"
  proof (rule Cons.IH)
    from Cons.prems(1) show "sorted_by cmp ys" by (simp add: sorted_by_Cons)
    from Cons.prems(2) zs show "sorted_by cmp zs'" by (simp add: sorted_by_Cons)
    from Cons.prems(3) zs head show "mset ys = mset zs'" by simp
    fix k
    assume "k \<in> set ys"
    then have "filter (\<lambda>x. cmp k x = 0) (y # ys) = filter (\<lambda>x. cmp k x = 0) zs"
      by (intro Cons.prems(4)) simp
    with zs head show "filter (\<lambda>x. cmp k x = 0) ys = filter (\<lambda>x. cmp k x = 0) zs'"
      by (simp split: if_splits)
  qed
  with zs head show ?case by simp
qed

lemma stable_sort_of_unique:
  assumes "cmp_consistent cmp" and "stable_sort_of cmp xs ys" and "stable_sort_of cmp xs zs"
  shows "ys = zs"
proof (rule stable_sorted_unique [OF assms(1)])
  from assms(2) show "sorted_by cmp ys" by (simp add: stable_sort_of_def)
  from assms(3) show "sorted_by cmp zs" by (simp add: stable_sort_of_def)
  from assms(2,3) show "mset ys = mset zs" by (simp add: stable_sort_of_def)
  fix k
  assume "k \<in> set ys"
  moreover from assms(2) have "set ys = set xs"
    unfolding stable_sort_of_def by (blast dest: mset_eq_setD)
  ultimately have "k \<in> set xs" by simp
  with assms(2,3) show "filter (\<lambda>x. cmp k x = 0) ys = filter (\<lambda>x. cmp k x = 0) zs"
    by (simp add: stable_sort_of_def list_all_iff)
qed

lemma mset_insort_by [simp]: "mset (insort_by cmp x ys) = add_mset x (mset ys)"
  by (induction ys) auto

lemma mset_fold_insort_by: "mset (fold (insort_by cmp) xs acc) = mset xs + mset acc"
  by (induction xs arbitrary: acc) auto

lemma mset_Array_sort [simp]: "mset (Array_sort cmp xs) = mset xs"
  by (simp add: Array_sort_def mset_fold_insort_by)

lemma filter_insort_by:
  assumes c: "cmp_consistent cmp"
  shows "sorted_by cmp ys \<Longrightarrow>
         filter (\<lambda>w. cmp k w = 0) (insort_by cmp x ys) =
         filter (\<lambda>w. cmp k w = 0) ys @ (if cmp k x = 0 then [x] else [])"
proof (induction ys)
  case Nil
  show ?case by simp
next
  case (Cons y ys)
  from Cons.prems have ys: "sorted_by cmp ys" and y: "\<And>w. w \<in> set ys \<Longrightarrow> cmp y w \<le> 0"
    by (simp_all add: sorted_by_Cons)
  show ?case
  proof (cases "cmp x y < 0")
    case False
    with Cons.IH [OF ys] show ?thesis by simp
  next
    case True
    have apart: "cmp k w \<noteq> 0" if kx: "cmp k x = 0" and w: "w \<in> set (y # ys)" for w
    proof
      assume kw: "cmp k w = 0"
      have yw: "cmp y w \<le> 0"
        using w y by (auto simp: cmp_consistent_refl [OF c])
      from cmp_consistent_sym [OF c kw] have "cmp w k \<le> 0" by simp
      moreover from kx have "cmp k x \<le> 0" by simp
      ultimately have "cmp w x \<le> 0" by (rule cmp_consistent_trans [OF c])
      with yw have "cmp y x \<le> 0" by (rule cmp_consistent_trans [OF c])
      with cmp_consistent_flip [OF c, of x y] True show False by simp
    qed
    show ?thesis
    proof (cases "cmp k x = 0")
      case kx: True
      with apart have "filter (\<lambda>w. cmp k w = 0) (y # ys) = []"
        by (auto simp: filter_empty_conv)
      with True kx show ?thesis by simp
    next
      case False
      with True show ?thesis by simp
    qed
  qed
qed

lemma filter_fold_insort_by:
  assumes c: "cmp_consistent cmp"
  shows "sorted_by cmp acc \<Longrightarrow>
         filter (\<lambda>w. cmp k w = 0) (fold (insort_by cmp) xs acc) =
         filter (\<lambda>w. cmp k w = 0) acc @ filter (\<lambda>w. cmp k w = 0) xs"
proof (induction xs arbitrary: acc)
  case Nil
  show ?case by simp
next
  case (Cons x xs)
  from c Cons.prems have "sorted_by cmp (insort_by cmp x acc)" by (rule sorted_by_insort_by)
  from Cons.IH [OF this] show ?case
    by (simp add: filter_insort_by [OF c Cons.prems])
qed

lemma stable_sort_of_Array_sort:
  "cmp_consistent cmp \<Longrightarrow> stable_sort_of cmp xs (Array_sort cmp xs)"
  unfolding stable_sort_of_def
  by (simp add: sorted_by_Array_sort list_all_iff)
     (simp add: Array_sort_def filter_fold_insort_by sorted_by_def)

lemma conforming_sort_strings: "conforming engine \<Longrightarrow> sort_strings engine = sort"
proof
  fix xs
  assume "conforming engine"
  then have "sorted (sort_strings engine xs)" "mset (sort_strings engine xs) = mset xs"
    unfolding conforming_def by blast+
  then show "sort_strings engine xs = sort xs"
    by (simp add: properties_for_sort)
qed

lemma conforming_sort_rows:
  "conforming engine \<Longrightarrow> cmp_consistent cmp \<Longrightarrow> sort_rows engine cmp xs = Array_sort cmp xs"
  by (rule stable_sort_of_unique [where cmp = cmp and xs = xs])
     (auto simp: conforming_def stable_sort_of_Array_sort)

lemma conforming_sort_mods:
  "conforming engine \<Longrightarrow> cmp_consistent cmp \<Longrightarrow> sort_mods engine cmp xs = Array_sort cmp xs"
  by (rule stable_sort_of_unique [where cmp = cmp and xs = xs])
     (auto simp: conforming_def stable_sort_of_Array_sort)

lemma conforming_insertion_engine: "conforming insertion_engine"
  by (simp add: conforming_def insertion_engine_def stable_sort_of_Array_sort)

lemma conforming_reversing_engine: "conforming reversing_engine"
  by (simp add: conforming_def reversing_engine_def stable_sort_of_Array_sort)

section \<open>The by-mod summary without loops\<close>

lemma push_row_pair:
  "push_row (e, row) s =
     AList.map_entry e (\<lambda>rows. rows @ [row])
       (if \<not> map_has e s then AList.update e [] s else s)"
  by (simp add: push_row_def)

lemma push_mod_rows_fold:
  "push_mod_rows engine p a mv s =
     (if list_ex (\<lambda>e. e \<in> set Object_prototype_keys) (map fst mv) then Inl TypeError
      else Inr (fold push_row
                  (map (\<lambda>(e, vals).
                          (e, \<lparr>pm_fieldPath = p, pm_fieldType = fieldType a,
                               pm_values = sort_strings engine vals\<rparr>)) mv) s))"
  by (induction engine p a mv s rule: push_mod_rows.induct)
     (simp_all add: push_row_pair Let_def)

lemma perMod_loop_fold:
  "perMod_loop engine agg s =
     (if list_ex (\<lambda>e. e \<in> set Object_prototype_keys) (mod_names agg) then Inl TypeError
      else Inr (fold push_row (contributions engine agg) s))"
proof (induction engine agg s rule: perMod_loop.induct)
  case (1 engine s)
  show ?case by (simp add: mod_names_def contributions_def)
next
  case (2 engine p a rest s)
  show ?case
  proof (cases "list_ex (\<lambda>e. e \<in> set Object_prototype_keys) (map fst (modValues a))")
    case True
    then show ?thesis
      by (simp add: push_mod_rows_fold mod_names_def)
  next
    case False
    then show ?thesis
      using "2.IH"
      by (simp add: push_mod_rows_fold mod_names_def contributions_def)
  qed
qed

lemma map_fst_map_entry [simp]: "map fst (AList.map_entry k f m) = map fst m"
  by (induction m) auto

lemma map_fst_push_row: "map fst (push_row c s) = set_add (fst c) (map fst s)"
  by (auto simp: push_row_def update_keys set_add_def map_has_def map_of_eq_None_iff)

lemma map_fst_fold_push_row:
  "map fst (fold push_row cs s) = fold set_add (map fst cs) (map fst s)"
  by (induction cs arbitrary: s) (simp_all add: map_fst_push_row)

lemma map_of_push_row:
  "map_of (push_row c s) e =
     (if e = fst c
      then Some ((case map_of s e of None \<Rightarrow> [] | Some rows \<Rightarrow> rows) @ [snd c])
      else map_of s e)"
  by (auto simp: push_row_def map_of_map_entry update_conv' map_has_def split: option.splits)

lemma map_of_fold_push_row:
  "map_of (fold push_row cs s) e =
     (if e \<in> fst ` set cs \<or> map_of s e \<noteq> None
      then Some ((case map_of s e of None \<Rightarrow> [] | Some rows \<Rightarrow> rows) @
                 map snd (filter (\<lambda>c. fst c = e) cs))
      else None)"
proof (induction cs arbitrary: s)
  case Nil
  show ?case by (auto split: option.splits)
next
  case (Cons c cs)
  show ?case
    by (simp add: Cons.IH map_of_push_row)
qed

lemma distinct_fold_set_add: "distinct acc \<Longrightarrow> distinct (fold set_add xs acc)"
  by (induction xs arbitrary: acc) (simp_all add: distinct_set_add)

lemma alist_by_keys:
  "distinct (map fst r) \<Longrightarrow> (\<And>k. k \<in> set (map fst r) \<Longrightarrow> map_of r k = Some (f k)) \<Longrightarrow>
   r = map (\<lambda>k. (k, f k)) (map fst r)"
proof (induction r)
  case Nil
  show ?case by simp
next
  case (Cons x r)
  obtain k v where x: "x = (k, v)" by (cases x)
  from Cons.prems(2) [of k] x have v: "v = f k" by simp
  have "r = map (\<lambda>k. (k, f k)) (map fst r)"
  proof (rule Cons.IH)
    from Cons.prems(1) show "distinct (map fst r)" by simp
    fix k'
    assume k': "k' \<in> set (map fst r)"
    with Cons.prems(1) x have "k' \<noteq> k" by auto
    with Cons.prems(2) [of k'] k' x show "map_of r k' = Some (f k')" by simp
  qed
  with x v show ?case by simp
qed

lemma map_fst_contributions: "map fst (contributions engine agg) = mod_names agg"
  by (induction agg) (auto simp: contributions_def mod_names_def)

lemma rows_of_contributions:
  "sort_strings engine = sort \<Longrightarrow>
   map snd (filter (\<lambda>c. fst c = e) (contributions engine agg)) = mod_rows e agg"
proof (induction agg)
  case Nil
  show ?case by (simp add: contributions_def mod_rows_def)
next
  case (Cons x agg)
  obtain p a where x: "x = (p, a)" by (cases x)
  have "map snd (filter (\<lambda>c. fst c = e)
          (map (\<lambda>(e, vals). (e, \<lparr>pm_fieldPath = p, pm_fieldType = fieldType a,
                                 pm_values = sort vals\<rparr>)) mv)) =
        map (\<lambda>(e', vals). \<lparr>pm_fieldPath = p, pm_fieldType = fieldType a, pm_values = sort vals\<rparr>)
          (filter (\<lambda>(e', vals). e' = e) mv)" for mv
    by (induction mv) auto
  with Cons show ?case
    by (simp add: contributions_def mod_rows_def x)
qed

lemma fold_push_row_grouped:
  assumes "sort_strings engine = sort"
  shows "fold push_row (contributions engine agg) [] =
         map (\<lambda>e. (e, mod_rows e agg)) (fold set_add (mod_names agg) [])"
proof -
  let ?r = "fold push_row (contributions engine agg) []"
  have keys: "map fst ?r = fold set_add (mod_names agg) []"
    by (simp add: map_fst_fold_push_row map_fst_contributions)
  then have "distinct (map fst ?r)"
    by (simp add: distinct_fold_set_add)
  moreover have "map_of ?r k = Some (mod_rows k agg)" if "k \<in> set (map fst ?r)" for k
  proof -
    from that keys have "k \<in> set (mod_names agg)" by simp
    then have "k \<in> fst ` set (contributions engine agg)"
      using map_fst_contributions [of engine agg] by (metis set_map)
    then show ?thesis
      by (simp add: map_of_fold_push_row rows_of_contributions [OF assms])
  qed
  ultimately have "?r = map (\<lambda>k. (k, mod_rows k agg)) (map fst ?r)"
    by (rule alist_by_keys)
  with keys show ?thesis by simp
qed

lemma buildPerModSummaries_mod_summary:
  assumes "conforming engine" and "cmp_consistent localeCompare"
  shows "buildPerModSummaries engine localeCompare agg =
         (if list_ex (\<lambda>e. e \<in> set Object_prototype_keys) (mod_names agg) then Inl TypeError
          else Inr (mod_summary localeCompare agg))"
proof -
  let ?cmp = "\<lambda>a b. localeCompare (pm_fieldPath a) (pm_fieldPath b)"
  have "cmp_consistent ?cmp"
    by (rule cmp_consistent_on_key [OF assms(2)])
  then have rows: "sort_rows engine ?cmp xs = Array_sort ?cmp xs" for xs
    by (rule conforming_sort_rows [OF assms(1)])
  show ?thesis
    by (simp add: buildPerModSummaries_def perMod_loop_fold mod_summary_def rows
        fold_push_row_grouped [OF conforming_sort_strings [OF assms(1)]] comp_def)
qed

section \<open>The by-field summary without loops, and the whole run\<close>

lemma update_new: "k \<notin> fst ` set m \<Longrightarrow> AList.update k v m = m @ [(k, v)]"
  by (induction m) auto

lemma perField_loop_closed:
  assumes strings: "sort_strings engine = sort"
    and mods: "\<And>xs. sort_mods engine (\<lambda>a b. localeCompare (pf_modName a) (pf_modName b)) xs =
                 Array_sort (\<lambda>a b. localeCompare (pf_modName a) (pf_modName b)) xs"
  shows "distinct (map fst m) \<Longrightarrow> fst ` set m \<inter> fst ` set acc = {} \<Longrightarrow>
         perField_loop engine localeCompare m acc =
         acc @ map (\<lambda>(p, a).
               (p, \<lparr>ps_fieldType = fieldType a,
                    ps_mods = Array_sort (\<lambda>a b. localeCompare (pf_modName a) (pf_modName b))
                                (map (\<lambda>(e, vals). \<lparr>pf_modName = e, pf_values = sort vals\<rparr>)
                                   (modValues a)),
                    ps_distinctValues = sort (distinctValues a)\<rparr>))
            (filter (\<lambda>(p, a). p \<noteq> ''__proto__'') m)"
proof (induction m arbitrary: acc)
  case Nil
  show ?case by simp
next
  case (Cons x m)
  obtain p a where x: "x = (p, a)" by (cases x)
  let ?summary = "\<lparr>ps_fieldType = fieldType a,
      ps_mods = Array_sort (\<lambda>a b. localeCompare (pf_modName a) (pf_modName b))
                  (map (\<lambda>(e, vals). \<lparr>pf_modName = e, pf_values = sort vals\<rparr>) (modValues a)),
      ps_distinctValues = sort (distinctValues a)\<rparr>"
  let ?acc = "if p = ''__proto__'' then acc else AList.update p ?summary acc"
  from Cons.prems x have new: "p \<notin> fst ` set acc" and m: "distinct (map fst m)"
    and p: "p \<notin> fst ` set m" and disj: "fst ` set m \<inter> fst ` set acc = {}"
    by auto
  from new have acc: "?acc = (if p = ''__proto__'' then acc else acc @ [(p, ?summary)])"
    by (simp add: update_new)
  with p disj have "fst ` set m \<inter> fst ` set ?acc = {}"
    by auto
  from Cons.IH [OF m this] have
    "perField_loop engine localeCompare m ?acc =
     ?acc @ map (\<lambda>(p, a).
               (p, \<lparr>ps_fieldType = fieldType a,
                    ps_mods = Array_sort (\<lambda>a b. localeCompare (pf_modName a) (pf_modName b))
                                (map (\<lambda>(e, vals). \<lparr>pf_modName = e, pf_values = sort vals\<rparr>)
                                   (modValues a)),
                    ps_distinctValues = sort (distinctValues a)\<rparr>))
            (filter (\<lambda>(p, a). p \<noteq> ''__proto__'') m)" .
  moreover have "perField_loop engine localeCompare (x # m) acc =
                 perField_loop engine localeCompare m ?acc"
    by (simp add: x strings mods Let_def)
  ultimately show ?case
    unfolding acc by (simp add: x)
qed

lemma buildPerFieldSummaries_field_summary:
  assumes "conforming engine" and "cmp_consistent localeCompare" and "distinct (map fst agg)"
  shows "buildPerFieldSummaries engine localeCompare agg = field_summary localeCompare agg"
proof -
  let ?cmp = "\<lambda>a b. localeCompare (pf_modName a) (pf_modName b)"
  have "cmp_consistent ?cmp"
    by (rule cmp_consistent_on_key [OF assms(2)])
  then have mods: "sort_mods engine ?cmp xs = Array_sort ?cmp xs" for xs
    by (rule conforming_sort_mods [OF assms(1)])
  show ?thesis
    unfolding buildPerFieldSummaries_def field_summary_def
    by (subst perField_loop_closed [OF conforming_sort_strings [OF assms(1)] mods assms(3)])
       simp_all
qed

lemma distinct_merge_field:
  "distinct (map fst m) \<Longrightarrow> distinct (map fst (merge_field p a e m))"
  by (simp add: merge_field_def Let_def distinct_update)

lemma distinct_merge_mod_fields:
  "distinct (map fst m) \<Longrightarrow> distinct (map fst (merge_mod_fields fs e m))"
  by (induction fs e m rule: merge_mod_fields.induct) (simp_all add: distinct_merge_field)

lemma distinct_single_loop:
  "distinct (map fst m) \<Longrightarrow> single_loop store configTypeName m = Inr m' \<Longrightarrow>
   distinct (map fst m')"
  by (induction store configTypeName m rule: single_loop.induct)
     (auto simp: distinct_merge_mod_fields split: if_splits sum.splits)

lemma distinct_files_loop:
  "distinct (map fst m) \<Longrightarrow> files_loop files e configTypeName m = Inr m' \<Longrightarrow>
   distinct (map fst m')"
  by (induction files e configTypeName m rule: files_loop.induct)
     (auto simp: distinct_merge_mod_fields split: if_splits sum.splits)

lemma distinct_multi_loop:
  "distinct (map fst m) \<Longrightarrow> multi_loop store configTypeName m = Inr m' \<Longrightarrow>
   distinct (map fst m')"
  by (induction store configTypeName m rule: multi_loop.induct)
     (auto split: sum.splits dest: distinct_files_loop)

lemma writeAnalysisSummaries_summaries_of:
  assumes "conforming engine" and "cmp_consistent localeCompare" and "distinct (map fst agg)"
  shows "writeAnalysisSummaries engine localeCompare agg = summaries_of localeCompare (Inr agg)"
  by (simp add: writeAnalysisSummaries_def summaries_of_def
      buildPerModSummaries_mod_summary [OF assms(1,2)]
      buildPerFieldSummaries_field_summary [OF assms])

lemma analyzeSingleConfigType_summaries_of:
  assumes "conforming engine" and "cmp_consistent localeCompare"
  shows "analyzeSingleConfigType engine localeCompare store configTypeName =
         summaries_of localeCompare (single_fieldAnalysisMap store configTypeName)"
proof (cases "single_fieldAnalysisMap store configTypeName")
  case (Inl e)
  then show ?thesis by (simp add: analyzeSingleConfigType_def summaries_of_def)
next
  case (Inr agg)
  then have "single_loop store configTypeName [] = Inr agg"
    by (simp add: single_fieldAnalysisMap_def)
  with distinct_single_loop [of "[]" store configTypeName agg] have "distinct (map fst agg)"
    by simp
  with Inr show ?thesis
    by (simp add: analyzeSingleConfigType_def writeAnalysisSummaries_summaries_of [OF assms])
qed

lemma analyzeMultiConfigType_summaries_of:
  assumes "conforming engine" and "cmp_consistent localeCompare"
  shows "analyzeMultiConfigType engine localeCompare store configTypeName =
         summaries_of localeCompare (multi_fieldAnalysisMap store configTypeName)"
proof (cases "multi_fieldAnalysisMap store configTypeName")
  case (Inl e)
  then show ?thesis by (simp add: analyzeMultiConfigType_def summaries_of_def)
next
  case (Inr agg)
  then have "multi_loop store configTypeName [] = Inr agg"
    by (simp add: multi_fieldAnalysisMap_def)
  with distinct_multi_loop [of "[]" store configTypeName agg] have "distinct (map fst agg)"
    by simp
  with Inr show ?thesis
    by (simp add: analyzeMultiConfigType_def writeAnalysisSummaries_summaries_of [OF assms])
qed

lemma analyzeModConfigs_expected_run:
  "conforming engine \<Longrightarrow> cmp_consistent localeCompare \<Longrightarrow>
   analyzeModConfigs engine localeCompare ctx = expected_run localeCompare ctx"
  by (simp add: analyzeModConfigs_def expected_run_def analyzeSingleConfigType_summaries_of
      analyzeMultiConfigType_summaries_of)

lemma set_own_property_order [simp]: "set (own_property_order props) = set props"
  by (auto simp: own_property_order_def)

lemma rows_sorted_mod_summary:
  assumes "cmp_consistent localeCompare"
  shows "rows_sorted localeCompare (mod_summary localeCompare agg)"
proof -
  let ?cmp = "\<lambda>a b. localeCompare (pm_fieldPath a) (pm_fieldPath b)"
  have "sorted_by ?cmp (Array_sort ?cmp xs)" for xs
    by (rule sorted_by_Array_sort) (rule cmp_consistent_on_key [OF assms])
  moreover have "sorted (pm_values r)" if "r \<in> set (mod_rows e agg)" for r e
    using that by (auto simp: mod_rows_def)
  ultimately show ?thesis
    by (auto simp: rows_sorted_def mod_summary_def list_all_iff)
qed

lemma fields_sorted_field_summary:
  assumes "cmp_consistent localeCompare"
  shows "fields_sorted localeCompare (field_summary localeCompare agg)"
proof -
  let ?cmp = "\<lambda>a b. localeCompare (pf_modName a) (pf_modName b)"
  have "sorted_by ?cmp (Array_sort ?cmp xs)" for xs
    by (rule sorted_by_Array_sort) (rule cmp_consistent_on_key [OF assms])
  then show ?thesis
    by (auto simp: fields_sorted_def field_summary_def summary_sorted_def list_all_iff)
qed

lemma summaries_sorted_summaries_of:
  "cmp_consistent localeCompare \<Longrightarrow> summaries_of localeCompare r = Inr s \<Longrightarrow>
   summaries_sorted localeCompare s"
  by (auto simp: summaries_of_def summaries_sorted_def rows_sorted_mod_summary
      fields_sorted_field_summary split: sum.splits if_splits)

lemma run_in_order_written:
  "(n, s) \<in> set (fst (run_in_order steps)) \<Longrightarrow> (n, Inr s) \<in> set steps"
  by (induction steps rule: run_in_order.induct) (auto split: prod.splits)

lemma summaries_sorted_expected_run:
  assumes "cmp_consistent localeCompare"
  shows "list_all (\<lambda>(configTypeName, s). summaries_sorted localeCompare s)
           (fst (expected_run localeCompare ctx))"
proof -
  have "summaries_sorted localeCompare s"
    if "(n, s) \<in> set (fst (expected_run localeCompare ctx))" for n s
  proof -
    from that have "(n, Inr s) \<in> set
       [(''manifest'',
         summaries_of localeCompare (single_fieldAnalysisMap (manifestConfigs ctx) ''manifest'')),
        (''title-screen'',
         summaries_of localeCompare
           (single_fieldAnalysisMap (titleScreenConfigs ctx) ''title-screen'')),
        (''addon-manifest'',
         summaries_of localeCompare
           (single_fieldAnalysisMap (addonConfigs ctx) ''addon-manifest'')),
        (''default-config'',
         summaries_of localeCompare
           (single_fieldAnalysisMap (settingConfigs ctx) ''default-config'')),
        (''planets'',
         summaries_of localeCompare (multi_fieldAnalysisMap (planetConfigs ctx) ''planets'')),
        (''systems'',
         summaries_of localeCompare (multi_fieldAnalysisMap (systemConfigs ctx) ''systems''))]"
      unfolding expected_run_def by (rule run_in_order_written)
    then have "\<exists>r. summaries_of localeCompare r = Inr s"
      by (auto simp: eq_commute [of "Inr s"])
    then show ?thesis
      using summaries_sorted_summaries_of [OF assms] by blast
  qed
  then show ?thesis
    by (auto simp: list_all_iff)
qed

lemma example_run:
  "analyzeModConfigs insertion_engine codeunit_compare example_ctx = (example_written, None)"
  by code_simp

section \<open>The loop over an object's entries\<close>

lemma extract_entries_append:
  "extract_entries (xs @ ys) configTypeName fieldPath fieldsMap =
     (case extract_entries xs configTypeName fieldPath fieldsMap of
        Inl e \<Rightarrow> Inl e
      | Inr fieldsMap1 \<Rightarrow> extract_entries ys configTypeName fieldPath fieldsMap1)"
proof (induction xs arbitrary: fieldsMap)
  case Nil
  show ?case by simp
next
  case (Cons x xs)
  obtain key val where x: "x = (key, val)" by (cases x)
  show ?case
    unfolding x append_Cons extract_entries.simps Let_def
    by (simp add: Cons.IH split: sum.splits)
qed

lemma extract_entries_null:
  "val = JNull \<or> val = JUndefined \<Longrightarrow>
   extract_entries ((key, val) # rest) configTypeName fieldPath fieldsMap =
   extract_entries rest configTypeName fieldPath
     (AList.update (child_path configTypeName fieldPath key) null_entry fieldsMap)"
  by (auto simp: null_entry_def Let_def)

section \<open>Evaluation of the canonical string form\<close>

lemma Number_toString_digits:
  "Number_toString 1 = ''1''" "Number_toString 2 = ''2''" "Number_toString 3 = ''3''"
  "Number_toString 5 = ''5''" "Number_toString 7 = ''7''"
  by code_simp+

section \<open>The claims\<close>

text \<open>
  Claim C1: for the config type \<^verbatim>\<open>default-config\<close> the document
  \<^verbatim>\<open>{"settings": {"volume": 5, "brightness": 7}}\<close> should give the single field
  \<^verbatim>\<open>settings.{settingName}\<close> with the values 5 and 7. The extractor stores each
  setting with \<^verbatim>\<open>fieldsMap.set\<close>, which replaces the entry of the setting before it: the
  single field it returns holds the value 7 only.
\<close>

theorem settings_collapse_keeps_last_value:
  "extractFieldsFromJson
     (JObj [(''settings'', JObj [(''volume'', JNum 5), (''brightness'', JNum 7)])])
     ''default-config'' [] =
   Inr [(''settings.{settingName}'',
         \<lparr>modValues = [], distinctValues = [''7''], fieldType = Primitive\<rparr>)]"
  by code_simp

text \<open>
  The second half of claim C1 holds: under any other config type name the same document
  gives the two fields \<^verbatim>\<open>settings.volume\<close> and \<^verbatim>\<open>settings.brightness\<close>.
\<close>

lemma settings_not_collapsed_elsewhere:
  "configTypeName \<noteq> ''default-config'' \<Longrightarrow>
   extractFieldsFromJson
     (JObj [(''settings'', JObj [(''volume'', JNum 5), (''brightness'', JNum 7)])])
     configTypeName [] =
   Inr [(''settings.volume'',
         \<lparr>modValues = [], distinctValues = [''5''], fieldType = Primitive\<rparr>),
        (''settings.brightness'',
         \<lparr>modValues = [], distinctValues = [''7''], fieldType = Primitive\<rparr>)]"
  by (simp add: child_path_def join_path_def Number_toString_digits)

text \<open>
  Claim C2: after any sequence of merge calls on an aggregate that starts empty, every
  field's distinct values equal the union of its per-mod value sets. The sequence is
  arbitrary, so the invariant holds after every single call and not only at the end; in
  particular it holds of the aggregates the two drivers hand to the summary builder.
\<close>

theorem union_invariant:
  "agg_inv (merge_calls calls []) \<and>
   (single_fieldAnalysisMap configStore configTypeName = Inr m \<longrightarrow> agg_inv m) \<and>
   (multi_fieldAnalysisMap multiStore multiTypeName = Inr m' \<longrightarrow> agg_inv m')"
proof -
  have empty: "agg_inv []" by (simp add: agg_inv_def)
  then have "agg_inv (merge_calls calls [])" by (rule agg_inv_merge_calls)
  moreover have "agg_inv m" if "single_fieldAnalysisMap configStore configTypeName = Inr m"
    using empty that unfolding single_fieldAnalysisMap_def by (rule agg_inv_single_loop)
  moreover have "agg_inv m'" if "multi_fieldAnalysisMap multiStore multiTypeName = Inr m'"
    using empty that unfolding multi_fieldAnalysisMap_def by (rule agg_inv_multi_loop)
  ultimately show ?thesis by blast
qed

theorem union_invariant_witness:
  "agg_inv (merge_calls
      [(''x'', \<lparr>modValues = [], distinctValues = [''1''], fieldType = Primitive\<rparr>, ''modA''),
       (''x'', \<lparr>modValues = [], distinctValues = [''2''], fieldType = Array\<rparr>, ''modB'')] []) \<and>
   single_fieldAnalysisMap example_store ''manifest'' = Inr example_aggregate \<and>
   agg_inv example_aggregate \<and>
   multi_fieldAnalysisMap [(''modA'', Some example_store)] ''planets'' = Inr example_files_aggregate \<and>
   agg_inv example_files_aggregate"
  using union_invariant [where
      calls = "[(''x'', \<lparr>modValues = [], distinctValues = [''1''], fieldType = Primitive\<rparr>,
                 ''modA''),
                (''x'', \<lparr>modValues = [], distinctValues = [''2''], fieldType = Array\<rparr>,
                 ''modB'')]"
      and configStore = example_store and configTypeName = "''manifest''"
      and m = example_aggregate and multiStore = "[(''modA'', Some example_store)]"
      and multiTypeName = "''planets''" and m' = example_files_aggregate]
  by (simp add: example_single example_multi)

text \<open>
  Claim C3, as stated: a \<^verbatim>\<open>null\<close> input at the current path gives one entry with the
  value \<^verbatim>\<open>null\<close>. The extractor returns the empty map for it.
\<close>

theorem null_input_counterexample:
  "extractFieldsFromJson JNull ''manifest'' ''a'' = Inr [] \<and>
   extractFieldsFromJson JNull ''manifest'' ''a'' \<noteq>
     Inr [(''a'', \<lparr>modValues = [], distinctValues = [''null''], fieldType = Primitive\<rparr>)]"
  by simp

text \<open>
  Claim C3, amended: for every current path and config type name, a \<^verbatim>\<open>null\<close> or absent
  input gives no entry. The entry of kind primitive with the value set \<^verbatim>\<open>{"null"}\<close>
  is the one an object's loop stores for a key whose value is \<^verbatim>\<open>null\<close> or absent: it
  is set at the path of that key in the map built from the keys before it, replacing an
  entry already at that path, and the keys after it are processed on the map so obtained
  (a later key of the same path replaces the entry in turn). When the key is the last one,
  the result is the result of the keys before it with that entry set.
\<close>

theorem null_input_no_entry:
  "extractFieldsFromJson JNull configTypeName fieldPath = Inr [] \<and>
   extractFieldsFromJson JUndefined configTypeName fieldPath = Inr [] \<and>
   (val = JNull \<or> val = JUndefined \<longrightarrow>
      extractFieldsFromJson (JObj (before @ (key, val) # after)) configTypeName fieldPath =
        (case extractFieldsFromJson (JObj before) configTypeName fieldPath of
           Inl e \<Rightarrow> Inl e
         | Inr fieldsMap \<Rightarrow>
             extract_entries after configTypeName fieldPath
               (AList.update (child_path configTypeName fieldPath key) null_entry fieldsMap)) \<and>
      extractFieldsFromJson (JObj (before @ [(key, val)])) configTypeName fieldPath =
        (case extractFieldsFromJson (JObj before) configTypeName fieldPath of
           Inl e \<Rightarrow> Inl e
         | Inr fieldsMap \<Rightarrow>
             Inr (AList.update (child_path configTypeName fieldPath key) null_entry fieldsMap)))"
  by (auto simp: extract_entries_append null_entry_def Let_def split: sum.splits)

theorem null_input_no_entry_witness:
  "extractFieldsFromJson (JObj ([(''a'', JNum 1)] @ (''b'', JNull) # [(''c'', JUndefined)]))
     ''manifest'' ''p'' =
   Inr [(''p.a'', \<lparr>modValues = [], distinctValues = [''1''], fieldType = Primitive\<rparr>),
        (''p.b'', null_entry), (''p.c'', null_entry)] \<and>
   extractFieldsFromJson (JObj ([(''a'', JNum 1)] @ [(''b'', JNull)])) ''manifest'' ''p'' =
   Inr [(''p.a'', \<lparr>modValues = [], distinctValues = [''1''], fieldType = Primitive\<rparr>),
        (''p.b'', null_entry)]"
  using null_input_no_entry [of "''manifest''" "''p''" JNull "[(''a'', JNum 1)]" "''b''"
      "[(''c'', JUndefined)]"]
  by (simp add: child_path_def join_path_def null_entry_def Number_toString_digits)

text \<open>
  A later key of the same path replaces the entry: under \<^verbatim>\<open>settings\<close> of
  \<^verbatim>\<open>default-config\<close>, \<^verbatim>\<open>{"a": null, "b": 5}\<close> gives the value set \<^verbatim>\<open>{"5"}\<close>.
\<close>

lemma null_entry_replaced_by_later_key:
  "extractFieldsFromJson (JObj [(''a'', JNull), (''b'', JNum 5)]) ''default-config'' ''settings'' =
   Inr [(''settings.{settingName}'',
         \<lparr>modValues = [], distinctValues = [''5''], fieldType = Primitive\<rparr>)]"
  by code_simp

text \<open>
  Claim C4, as stated: an array with a scalar or \<^verbatim>\<open>null\<close> element gives one entry of
  kind array at its path, also when every such element is \<^verbatim>\<open>null\<close>. The array
  \<^verbatim>\<open>[null]\<close> has such an element and gives no entry: the entry is stored only when
  its value set is not empty (line 166).
\<close>

theorem all_null_array_counterexample:
  "hasPrimitives [JNull] \<and> extractFieldsFromJson (JArr [JNull]) ''manifest'' ''tags'' = Inr []"
  by (simp add: hasPrimitives_def hasObjects_def)

text \<open>
  Claim C4, amended: for every array that is not empty and whose elements are all scalars,
  \<^verbatim>\<open>null\<close> or absent, extraction does not throw; when some element is neither
  \<^verbatim>\<open>null\<close> nor absent it gives exactly one entry, at the array's own path (or
  \<^verbatim>\<open>[root]\<close>), of kind array, whose value set holds the canonical strings of exactly
  those elements; when every element is \<^verbatim>\<open>null\<close> or absent it gives no entry.
\<close>

theorem scalar_array_entry:
  assumes "obj \<noteq> []" and "list_all scalar_or_null obj"
  shows "\<exists>dv. distinct dv \<and> Inr ` set dv = js_String ` set (filter present obj) \<and>
           extractFieldsFromJson (JArr obj) configTypeName fieldPath =
             Inr (if dv = [] then []
                  else [(path_key fieldPath,
                         \<lparr>modValues = [], distinctValues = dv, fieldType = Array\<rparr>)])"
proof -
  from array_values_scalars [OF assms(2), of "[]"] obtain dv where
    dv: "array_values obj [] = Inr dv" "distinct dv"
        "Inr ` set dv = js_String ` set (filter present obj)"
    by auto
  have "extractFieldsFromJson (JArr obj) configTypeName fieldPath =
        Inr (if dv = [] then []
             else [(path_key fieldPath,
                    \<lparr>modValues = [], distinctValues = dv, fieldType = Array\<rparr>)])"
    using assms dv(1) by (simp add: hasObjects_scalars hasPrimitives_scalars)
  with dv(2,3) show ?thesis by blast
qed

theorem scalar_array_entry_witness:
  "[JNum 1, JNull, JStr ''a''] \<noteq> [] \<and> list_all scalar_or_null [JNum 1, JNull, JStr ''a''] \<and>
   (\<exists>dv. distinct dv \<and>
      Inr ` set dv = js_String ` set (filter present [JNum 1, JNull, JStr ''a'']) \<and>
      extractFieldsFromJson (JArr [JNum 1, JNull, JStr ''a'']) ''manifest'' ''tags'' =
        Inr (if dv = [] then []
             else [(path_key ''tags'',
                    \<lparr>modValues = [], distinctValues = dv, fieldType = Array\<rparr>)]))"
  using scalar_array_entry [of "[JNum 1, JNull, JStr ''a'']" "''manifest''" "''tags''"]
  by (simp add: scalar_or_null_def)

text \<open>
  Claim C5: the kind recorded for a field path should be the first kind observed for it,
  also against a later sibling key of the same document. Under \<^verbatim>\<open>default-config\<close>
  the document \<^verbatim>\<open>{"settings": {"a": 1, "b": [2]}}\<close> observes the path
  \<^verbatim>\<open>settings.{settingName}\<close> first with kind primitive (the first conjunct: the document
  cut after \<^verbatim>\<open>a\<close>) and then with kind array; the aggregate records array, and the value
  of \<^verbatim>\<open>a\<close> is lost with its kind.
\<close>

theorem sibling_revises_kind:
  "extractFieldsFromJson (JObj [(''settings'', JObj [(''a'', JNum 1)])]) ''default-config'' [] =
     Inr [(''settings.{settingName}'',
           \<lparr>modValues = [], distinctValues = [''1''], fieldType = Primitive\<rparr>)] \<and>
   single_fieldAnalysisMap
     [(''modA'', JObj [(''settings'', JObj [(''a'', JNum 1), (''b'', JArr [JNum 2])])])]
     ''default-config'' =
     Inr [(''settings.{settingName}'',
           \<lparr>modValues = [(''modA'', [''2''])], distinctValues = [''2''], fieldType = Array\<rparr>)]"
  by code_simp

text \<open>
  Across merge calls the claim holds: once a field is in the aggregate, no later document
  or mod changes its kind (lemma \<open>fieldType_merge_calls_kept\<close>).
\<close>

text \<open>
  Claim C6: the document \<^verbatim>\<open>{"tags": [1, {"k":2}, null]}\<close> should give \<^verbatim>\<open>tags\<close> with
  the value set \<^verbatim>\<open>{"1"}\<close> and \<^verbatim>\<open>tags.k\<close> with \<^verbatim>\<open>{"2"}\<close>. The loop of the scalar
  branch runs over every element that is not \<^verbatim>\<open>null\<close>, the object included, so the
  value set of \<^verbatim>\<open>tags\<close> also holds \<^verbatim>\<open>[object Object]\<close>, under every config type name.
\<close>

theorem mixed_array_stringifies_object:
  "extractFieldsFromJson
     (JObj [(''tags'', JArr [JNum 1, JObj [(''k'', JNum 2)], JNull])]) configTypeName [] =
   Inr [(''tags.k'', \<lparr>modValues = [], distinctValues = [''2''], fieldType = Primitive\<rparr>),
        (''tags'',
         \<lparr>modValues = [], distinctValues = [''1'', ''[object Object]''], fieldType = Array\<rparr>)]"
  by (simp add: child_path_def join_path_def path_key_def Number_toString_digits
      hasObjects_def hasPrimitives_def map_has_def set_add_def)

text \<open>
  Claim C7: under a multi-document config type, a mod with the two documents
  \<^verbatim>\<open>fileA.json = {"x":1}\<close> and \<^verbatim>\<open>fileB.json = {"x":2}\<close> gives the single field \<^verbatim>\<open>x\<close>,
  whose value set for that mod is \<^verbatim>\<open>{"1","2"}\<close>. No file path is part of a field path:
  the aggregate is the same whatever the two files are called.
\<close>

theorem multi_document_accumulation:
  "multi_fieldAnalysisMap
     [(modName, Some [(''fileA.json'', JObj [(''x'', JNum 1)]),
                      (''fileB.json'', JObj [(''x'', JNum 2)])])]
     configTypeName =
   Inr [(''x'', \<lparr>modValues = [(modName, [''1'', ''2''])], distinctValues = [''1'', ''2''],
                 fieldType = Primitive\<rparr>)] \<and>
   multi_fieldAnalysisMap
     [(modName, Some [(filePathA, JObj [(''x'', JNum 1)]), (filePathB, JObj [(''x'', JNum 2)])])]
     configTypeName =
   multi_fieldAnalysisMap
     [(modName, Some [(''fileA.json'', JObj [(''x'', JNum 1)]),
                      (''fileB.json'', JObj [(''x'', JNum 2)])])]
     configTypeName"
  by (simp add: multi_fieldAnalysisMap_def child_path_def join_path_def Number_toString_digits
      merge_field_def mergeFieldAnalysis_def map_has_def set_add_def)

text \<open>
  Claim C8: merging is idempotent. For every aggregate, mod and extracted result, merging
  the same result for the same mod a second time gives the aggregate of the first merge:
  kinds, per-mod value sets and distinct values are all unchanged.
\<close>

theorem merge_idempotent:
  "merge_mod_fields extracted modName (merge_mod_fields extracted modName fieldAnalysisMap) =
   merge_mod_fields extracted modName fieldAnalysisMap"
  by (rule merge_mod_fields_absorbed) (rule merge_mod_fields_absorbs)

text \<open>
  Claim C9: two runs of the whole pipeline on the same stores write identical summaries.
  The runs share the stores and the string comparison that stands for
  \<^verbatim>\<open>localeCompare\<close>, assumed consistent; each run has its own engine, and the two
  engines may sort by different algorithms as long as they conform to ECMAScript. What
  both runs write is the loop-free description \<^const>\<open>expected_run\<close> of the summaries
  of the six aggregates, and in every summary written each mod's rows are sorted by field
  path, each field's mods are sorted by mod name, and every value list is sorted.
\<close>

theorem two_runs_identical_and_sorted:
  assumes "cmp_consistent localeCompare"
    and "conforming engine1" and "conforming engine2"
    and "run1 = analyzeModConfigs engine1 localeCompare ctx"
    and "run2 = analyzeModConfigs engine2 localeCompare ctx"
  shows "run1 = run2 \<and> run1 = expected_run localeCompare ctx \<and>
         list_all (\<lambda>(configTypeName, s). summaries_sorted localeCompare s) (fst run1)"
proof -
  from assms have 1: "run1 = expected_run localeCompare ctx"
    and 2: "run2 = expected_run localeCompare ctx"
    by (simp_all add: analyzeModConfigs_expected_run)
  with summaries_sorted_expected_run [OF assms(1), of ctx] show ?thesis
    by simp
qed

theorem two_runs_witness:
  "cmp_consistent codeunit_compare \<and> conforming insertion_engine \<and>
   conforming reversing_engine \<and>
   analyzeModConfigs insertion_engine codeunit_compare example_ctx =
     analyzeModConfigs reversing_engine codeunit_compare example_ctx \<and>
   analyzeModConfigs insertion_engine codeunit_compare example_ctx =
     expected_run codeunit_compare example_ctx \<and>
   analyzeModConfigs insertion_engine codeunit_compare example_ctx = (example_written, None) \<and>
   list_all (\<lambda>(configTypeName, s). summaries_sorted codeunit_compare s) example_written"
proof -
  note runs = two_runs_identical_and_sorted [OF cmp_consistent_codeunit_compare
      conforming_insertion_engine conforming_reversing_engine refl refl, of example_ctx]
  from runs have same: "analyzeModConfigs insertion_engine codeunit_compare example_ctx =
      analyzeModConfigs reversing_engine codeunit_compare example_ctx"
    by (rule conjunct1)
  from runs have expected: "analyzeModConfigs insertion_engine codeunit_compare example_ctx =
      expected_run codeunit_compare example_ctx"
    by (rule conjunct2 [THEN conjunct1])
  from runs have "list_all (\<lambda>(configTypeName, s). summaries_sorted codeunit_compare s)
      (fst (analyzeModConfigs insertion_engine codeunit_compare example_ctx))"
    by (rule conjunct2 [THEN conjunct2])
  then have sorted: "list_all (\<lambda>(configTypeName, s). summaries_sorted codeunit_compare s)
      example_written"
    by (simp add: example_run)
  from same expected sorted example_run cmp_consistent_codeunit_compare
    conforming_insertion_engine conforming_reversing_engine
  show ?thesis by (intro conjI)
qed

text \<open>
  Claim C10: an array element that is itself an array, as in \<^verbatim>\<open>[[1,2], 3]\<close>, should
  contribute nothing. It is skipped by the loop of the composite branch, but the loop of
  the scalar branch turns it into a string: the value set holds \<^verbatim>\<open>1,2\<close> beside
  \<^verbatim>\<open>3\<close>, at every path and under every config type name.
\<close>

theorem nested_array_is_joined:
  "extractFieldsFromJson (JArr [JArr [JNum 1, JNum 2], JNum 3]) configTypeName fieldPath =
   Inr [(path_key fieldPath,
         \<lparr>modValues = [], distinctValues = [''1,2'', ''3''], fieldType = Array\<rparr>)]"
  by (simp add: Number_toString_digits hasObjects_def hasPrimitives_def map_has_def set_add_def)

text \<open>
  The same loop makes extraction throw on a nested array that holds an object with an own
  property \<^verbatim>\<open>toString\<close>, as in \<^verbatim>\<open>[[{"toString": 1}], 3]\<close>.
\<close>

lemma nested_array_can_throw:
  "extractFieldsFromJson (JArr [JArr [JObj [(''toString'', JNum 1)]], JNum 3])
     configTypeName fieldPath = Inl TypeError"
  by (simp add: hasObjects_def hasPrimitives_def map_has_def)

end
